theory Spec2Isabelle
  imports Complex_Main
begin

section \<open>Python values and failures\<close>

text \<open>
  The terrain subsystem of \<^verbatim>\<open>main.py\<close> is embedded as pure functions over explicit state.
  Python integers are \<^typ>\<open>int\<close>; Python floats are idealised as \<^typ>\<open>real\<close>.  In the terrain
  map the float comparisons are between square roots of integers and integers far below the
  precision of a double, so rounding does not change their outcome.  An uncaught exception is
  the left summand of a result.
\<close>

datatype py_error = IndexError | ValueError | ZeroDivisionError

definition ebind :: "py_error + 'a \<Rightarrow> ('a \<Rightarrow> py_error + 'b) \<Rightarrow> py_error + 'b" where
  "ebind m f = (case m of Inl e \<Rightarrow> Inl e | Inr v \<Rightarrow> f v)"

text \<open>A \<^verbatim>\<open>for\<close> loop over a list that threads the mutated value and stops at the first failure.\<close>

fun efold :: "('a \<Rightarrow> 's \<Rightarrow> py_error + 's) \<Rightarrow> 'a list \<Rightarrow> 's \<Rightarrow> py_error + 's" where
  "efold f [] s = Inr s"
| "efold f (a # as) s = ebind (f a s) (efold f as)"

text \<open>\<^verbatim>\<open>int(v)\<close> on a float truncates towards zero.\<close>

definition py_int :: "real \<Rightarrow> int" where
  "py_int v = (if 0 \<le> v then \<lfloor>v\<rfloor> else \<lceil>v\<rceil>)"

text \<open>\<^verbatim>\<open>xs[i]\<close> and \<^verbatim>\<open>xs[i] = v\<close>: a negative index counts from the end, an index out
  of range raises.\<close>

definition py_index :: "nat \<Rightarrow> int \<Rightarrow> py_error + nat" where
  "py_index n i =
     (if 0 \<le> i \<and> i < int n then Inr (nat i)
      else if - int n \<le> i \<and> i < 0 then Inr (nat (int n + i))
      else Inl IndexError)"

definition py_get :: "'a list \<Rightarrow> int \<Rightarrow> py_error + 'a" where
  "py_get xs i = ebind (py_index (length xs) i) (\<lambda>k. Inr (xs ! k))"

definition py_set :: "'a list \<Rightarrow> int \<Rightarrow> 'a \<Rightarrow> py_error + 'a list" where
  "py_set xs i v = ebind (py_index (length xs) i) (\<lambda>k. Inr (xs[k := v]))"

text \<open>\<^verbatim>\<open>range(a, b)\<close> and \<^verbatim>\<open>range(a, b, 2)\<close>.\<close>

definition py_range :: "int \<Rightarrow> int \<Rightarrow> int list" where
  "py_range a b = [a..b - 1]"

definition py_range2 :: "int \<Rightarrow> int \<Rightarrow> int list" where
  "py_range2 a b = map (\<lambda>k. a + 2 * int k) [0..<nat ((b - a + 1) div 2)]"

section \<open>The terrain map\<close>

record crater =
  crater_x :: int
  crater_y :: int
  radius :: int
  creation_time :: real

record terrain_map =
  width :: int
  height :: int
  height_map :: "int list"
  ground_level :: int
  terrain_pixels :: "bool list list"
  craters :: "crater list"

text \<open>\<^verbatim>\<open>self.terrain_pixels[x][y]\<close> and \<^verbatim>\<open>self.terrain_pixels[x][y] = v\<close> (the column object is
  mutated in place, so the grid holds the updated column).\<close>

definition pixel :: "bool list list \<Rightarrow> int \<Rightarrow> int \<Rightarrow> py_error + bool" where
  "pixel px x y = ebind (py_get px x) (\<lambda>col. py_get col y)"

definition set_pixel :: "bool list list \<Rightarrow> int \<Rightarrow> int \<Rightarrow> bool \<Rightarrow> py_error + bool list list" where
  "set_pixel px x y v =
     ebind (py_get px x) (\<lambda>col. ebind (py_set col y v) (\<lambda>col'. py_set px x col'))"

subsection \<open>Construction\<close>

text \<open>\<^verbatim>\<open>TerrainMap.__init__\<close>.  The third argument is either a list (a profile) or a single
  ground level.\<close>

datatype height_arg = Profile "int list" | Level int

definition init_column :: "int \<Rightarrow> int \<Rightarrow> int \<Rightarrow> bool list list \<Rightarrow> py_error + bool list list" where
  "init_column h g x px = efold (\<lambda>y p. set_pixel p x y True) (py_range g h) px"

definition TerrainMap_init :: "int \<Rightarrow> int \<Rightarrow> height_arg \<Rightarrow> py_error + terrain_map" where
  "TerrainMap_init w h arg =
     ebind (case arg of
              Profile hm \<Rightarrow>
                if length hm = 0 then Inl ZeroDivisionError
                else Inr (hm, sum_list hm div int (length hm))
            | Level g \<Rightarrow> Inr (replicate (nat w) g, g))
       (\<lambda>(hm, gl).
          ebind (efold (\<lambda>x px. init_column h (if x < int (length hm) then hm ! nat x else gl) x px)
                   (py_range 0 w) (replicate (nat w) (replicate (nat h) False)))
            (\<lambda>px. Inr \<lparr>width = w, height = h, height_map = hm, ground_level = gl,
                        terrain_pixels = px, craters = []\<rparr>))"

subsection \<open>Queries\<close>

text \<open>The scan \<^verbatim>\<open>for y in ...: if self.terrain_pixels[x][y]: ...; break\<close> shared by the height
  queries: the first solid row among \<open>ys\<close>, if any.\<close>

fun first_solid :: "bool list list \<Rightarrow> int \<Rightarrow> int list \<Rightarrow> py_error + int option" where
  "first_solid px x [] = Inr None"
| "first_solid px x (y # ys) =
     ebind (pixel px x y) (\<lambda>b. if b then Inr (Some y) else first_solid px x ys)"

definition clamp_x :: "terrain_map \<Rightarrow> real \<Rightarrow> int" where
  "clamp_x s x = max 0 (min (width s - 1) (py_int x))"

definition get_ground_height :: "terrain_map \<Rightarrow> real \<Rightarrow> py_error + int" where
  "get_ground_height s x =
     (let x_int = clamp_x s x; search_radius = 3 in
      ebind (py_get (height_map s) x_int) (\<lambda>min_height.
        efold (\<lambda>dx m.
                 let check_x = x_int + dx in
                 if 0 \<le> check_x \<and> check_x < width s then
                   ebind (first_solid (terrain_pixels s) check_x (py_range 0 (height s)))
                     (\<lambda>r. case r of Some y \<Rightarrow> Inr (min m y) | None \<Rightarrow> Inr m)
                 else Inr m)
          (py_range (- search_radius) (search_radius + 1)) min_height))"

definition get_accurate_ground_height :: "terrain_map \<Rightarrow> real \<Rightarrow> real option \<Rightarrow> py_error + int" where
  "get_accurate_ground_height s x y_start =
     (let x_int = clamp_x s x;
          y0 = (case y_start of None \<Rightarrow> 0 | Some v \<Rightarrow> v) in
      ebind (first_solid (terrain_pixels s) x_int (py_range (py_int y0) (height s)))
        (\<lambda>r. case r of Some y \<Rightarrow> Inr y | None \<Rightarrow> Inr (height s)))"

definition is_solid_at :: "terrain_map \<Rightarrow> real \<Rightarrow> real \<Rightarrow> py_error + bool" where
  "is_solid_at s x y =
     (if x < 0 \<or> x \<ge> real_of_int (width s) \<or> y < 0 \<or> y \<ge> real_of_int (height s) then Inr False
      else pixel (terrain_pixels s) (py_int x) (py_int y))"

datatype side = Left | Right

fun wall_scan :: "terrain_map \<Rightarrow> real \<Rightarrow> real \<Rightarrow> int list \<Rightarrow> py_error + side option" where
  "wall_scan s xl xr [] = Inr None"
| "wall_scan s xl xr (check_y # ys) =
     ebind (is_solid_at s xl (real_of_int check_y)) (\<lambda>l.
       if l then Inr (Some Left)
       else ebind (is_solid_at s xr (real_of_int check_y)) (\<lambda>r.
         if r then Inr (Some Right) else wall_scan s xl xr ys))"

definition check_wall_collision ::
    "terrain_map \<Rightarrow> real \<Rightarrow> real \<Rightarrow> real \<Rightarrow> real \<Rightarrow> py_error + side option" where
  "check_wall_collision s x y w h =
     wall_scan s (x - 1) (x + w) (py_range2 (py_int y) (py_int (y + h)))"

subsection \<open>Mutation\<close>

definition distance :: "int \<Rightarrow> int \<Rightarrow> int \<Rightarrow> int \<Rightarrow> real" where
  "distance x y center_x center_y = sqrt (real_of_int ((x - center_x)\<^sup>2 + (y - center_y)\<^sup>2))"

definition update_height_map :: "terrain_map \<Rightarrow> py_error + terrain_map" where
  "update_height_map s =
     ebind (efold (\<lambda>x hm.
                     ebind (first_solid (terrain_pixels s) x (py_range 0 (height s)))
                       (\<lambda>r. py_set hm x (case r of Some y \<Rightarrow> y | None \<Rightarrow> height s)))
              (py_range 0 (width s)) (height_map s))
       (\<lambda>hm. Inr (s\<lparr>height_map := hm\<rparr>))"

definition carve :: "int \<Rightarrow> int \<Rightarrow> int \<Rightarrow> int list \<Rightarrow> int list \<Rightarrow> bool list list
    \<Rightarrow> py_error + bool list list" where
  "carve center_x center_y r xs ys px =
     efold (\<lambda>x p.
              efold (\<lambda>y q.
                       if distance x y center_x center_y \<le> real_of_int r
                       then set_pixel q x y False else Inr q) ys p) xs px"

text \<open>\<^verbatim>\<open>create_crater\<close>; \<open>now\<close> is the value \<^verbatim>\<open>time.time()\<close> returns during the call.  The
  radius is an integer: \<^verbatim>\<open>range\<close> rejects a float.\<close>

definition create_crater :: "terrain_map \<Rightarrow> real \<Rightarrow> real \<Rightarrow> int \<Rightarrow> real \<Rightarrow> py_error + terrain_map" where
  "create_crater s cx cy r now =
     (let center_x = py_int cx; center_y = py_int cy;
          crater_info = \<lparr>crater_x = center_x, crater_y = center_y, radius = r, creation_time = now\<rparr>;
          s1 = s\<lparr>craters := craters s @ [crater_info]\<rparr> in
      ebind (carve center_x center_y r
               (py_range (max 0 (center_x - r)) (min (width s1) (center_x + r + 1)))
               (py_range (max 0 (center_y - r)) (min (height s1) (center_y + r + 1)))
               (terrain_pixels s1))
        (\<lambda>px. update_height_map (s1\<lparr>terrain_pixels := px\<rparr>)))"

subsection \<open>Merging crater records\<close>

text \<open>The distance between two crater centres and the overlap test of
  \<^verbatim>\<open>merge_overlapping_craters\<close> (\<^verbatim>\<open>overlap_factor = 0.8\<close>).\<close>

definition crater_distance :: "crater \<Rightarrow> crater \<Rightarrow> real" where
  "crater_distance current_crater merged_crater =
     sqrt (real_of_int ((crater_x current_crater - crater_x merged_crater)\<^sup>2 +
                        (crater_y current_crater - crater_y merged_crater)\<^sup>2))"

definition overlaps :: "crater \<Rightarrow> crater \<Rightarrow> bool" where
  "overlaps current_crater merged_crater \<longleftrightarrow>
     crater_distance current_crater merged_crater <
       real_of_int (radius current_crater + radius merged_crater) * (8 / 10)"

text \<open>The record that replaces \<open>merged_crater\<close>.  The division by \<open>total_area\<close> is Python's true
  division, which raises on zero.  The weighted centre is computed over the reals; where the
  exact mean is a whole number the double computation can fall just below it, and \<^verbatim>\<open>int\<close> then
  yields one less.  No statement below depends on a merged centre except the evaluation of
  two merge passes over three craters, whose weighted means are exact (equal radii) or far
  from a whole number (50.15), so that the doubles give the same records.\<close>

definition merge_pair :: "crater \<Rightarrow> crater \<Rightarrow> py_error + crater" where
  "merge_pair current_crater merged_crater =
     (let d = crater_distance current_crater merged_crater;
          total_area = (radius current_crater)\<^sup>2 + (radius merged_crater)\<^sup>2 in
      if total_area = 0 then Inl ZeroDivisionError
      else
        let weight1 = real_of_int ((radius current_crater)\<^sup>2) / real_of_int total_area;
            weight2 = real_of_int ((radius merged_crater)\<^sup>2) / real_of_int total_area;
            new_x = py_int (real_of_int (crater_x current_crater) * weight1 +
                            real_of_int (crater_x merged_crater) * weight2);
            new_y = py_int (real_of_int (crater_y current_crater) * weight1 +
                            real_of_int (crater_y merged_crater) * weight2);
            max_extent = max (max (d + real_of_int (radius current_crater))
                                  (d + real_of_int (radius merged_crater)))
                             (real_of_int (radius current_crater) +
                              real_of_int (radius merged_crater) * (5 / 10));
            new_radius = min (py_int max_extent)
                             (max (radius current_crater) (radius merged_crater) + 20)
        in Inr \<lparr>crater_x = new_x, crater_y = new_y, radius = new_radius,
                 creation_time = max (creation_time current_crater)
                                     (creation_time merged_crater)\<rparr>)"

text \<open>The inner loop over \<^verbatim>\<open>enumerate(merged)\<close>: the first overlapping entry is replaced and the
  loop breaks; \<open>None\<close> stands for \<^verbatim>\<open>merged_with_any\<close> staying false.\<close>

fun merge_into :: "crater \<Rightarrow> crater list \<Rightarrow> py_error + crater list option" where
  "merge_into current_crater [] = Inr None"
| "merge_into current_crater (merged_crater # rest) =
     (if overlaps current_crater merged_crater
      then ebind (merge_pair current_crater merged_crater) (\<lambda>n. Inr (Some (n # rest)))
      else ebind (merge_into current_crater rest)
             (\<lambda>r. Inr (map_option (\<lambda>rest'. merged_crater # rest') r)))"

definition merge_step :: "crater \<Rightarrow> crater list \<Rightarrow> py_error + crater list" where
  "merge_step current_crater merged =
     ebind (merge_into current_crater merged)
       (\<lambda>r. case r of Some merged' \<Rightarrow> Inr merged' | None \<Rightarrow> Inr (merged @ [current_crater]))"

text \<open>\<^verbatim>\<open>list.sort\<close> is stable, as \<^const>\<open>sort_key\<close> is; \<^verbatim>\<open>xs[-50:]\<close> keeps the last fifty.\<close>

definition merge_overlapping_craters :: "terrain_map \<Rightarrow> py_error + terrain_map" where
  "merge_overlapping_craters s =
     (if length (craters s) < 2 then Inr s
      else ebind (efold merge_step (sort_key creation_time (craters s)) [])
             (\<lambda>merged. Inr (s\<lparr>craters := (if length merged > 50
                                             then drop (length merged - 50) merged
                                             else merged)\<rparr>)))"

subsection \<open>Sequences of calls\<close>

datatype terrain_op = CreateCrater real real int real | MergeCraters

fun apply_op :: "terrain_map \<Rightarrow> terrain_op \<Rightarrow> py_error + terrain_map" where
  "apply_op s (CreateCrater cx cy r now) = create_crater s cx cy r now"
| "apply_op s MergeCraters = merge_overlapping_craters s"

fun run_ops :: "terrain_map \<Rightarrow> terrain_op list \<Rightarrow> py_error + terrain_map" where
  "run_ops s [] = Inr s"
| "run_ops s (operation # rest) = ebind (apply_op s operation) (\<lambda>s'. run_ops s' rest)"

section \<open>The terrain generator\<close>

text \<open>
  Python's global random generator is a stream of raw draws; each call of \<^verbatim>\<open>random.random\<close>,
  \<^verbatim>\<open>random.randint\<close> or \<^verbatim>\<open>random.choice\<close> consumes one draw and maps it into the range the call
  promises.  \<^verbatim>\<open>randint(a, b)\<close> raises \<^verbatim>\<open>ValueError\<close> on an empty range.
\<close>

type_synonym rng = "nat \<Rightarrow> nat"

definition rng_next :: "rng \<Rightarrow> rng" where
  "rng_next g = (\<lambda>n. g (Suc n))"

definition random_random :: "rng \<Rightarrow> real \<times> rng" where
  "random_random g = (real (g 0 mod 2 ^ 53) / 2 ^ 53, rng_next g)"

definition random_randint :: "int \<Rightarrow> int \<Rightarrow> rng \<Rightarrow> py_error + int \<times> rng" where
  "random_randint a b g =
     (if b < a then Inl ValueError else Inr (a + int (g 0 mod nat (b - a + 1)), rng_next g))"

definition random_choice :: "'a list \<Rightarrow> rng \<Rightarrow> py_error + 'a \<times> rng" where
  "random_choice xs g =
     (if xs = [] then Inl IndexError else Inr (xs ! (g 0 mod length xs), rng_next g))"

definition SCREEN_HEIGHT :: int where
  "SCREEN_HEIGHT = 720"

definition base_ground_level :: int where
  "base_ground_level = SCREEN_HEIGHT - 100"

text \<open>The band \<^verbatim>\<open>min_height\<close>, \<^verbatim>\<open>max_height\<close> of \<^verbatim>\<open>generate_height_map\<close>.\<close>

definition min_height :: int where
  "min_height = SCREEN_HEIGHT - 220"

definition max_height :: int where
  "max_height = SCREEN_HEIGHT - 40"

text \<open>
  One iteration of the loop of \<^verbatim>\<open>generate_height_map\<close>: the height of column \<open>x\<close>.  The block
  under \<^verbatim>\<open>if x % 200 == 0\<close> draws up to four numbers and then runs a loop whose body is
  \<^verbatim>\<open>pass\<close>; only the draws remain.
\<close>

definition major_dune_draws :: "int \<Rightarrow> rng \<Rightarrow> py_error + rng" where
  "major_dune_draws x g =
     (if x mod 200 = 0 then
        (let (v, g1) = random_random g in
         if v < 3 / 10 then
           ebind (random_randint 50 150 g1) (\<lambda>(offset, g2).
             ebind (random_randint 80 120 g2) (\<lambda>(dune_width, g3).
               ebind (random_randint 40 70 g3) (\<lambda>(dune_height, g4). Inr g4)))
         else Inr g1)
      else Inr g)"

definition height_column :: "real \<Rightarrow> int \<Rightarrow> rng \<Rightarrow> py_error + int \<times> rng" where
  "height_column complexity x g =
     (let primary_frequency = 2 / 1000 * complexity; primary_amplitude = 80 * complexity;
          secondary_frequency = 6 / 1000 * complexity; secondary_amplitude = 35 * complexity;
          tertiary_frequency = 15 / 1000 * complexity; tertiary_amplitude = 15 * complexity;
          ripple_frequency = 5 / 100 * complexity; ripple_amplitude = 5 * complexity;
          asymmetry_frequency = 4 / 1000 * complexity;
          primary_height = sin (real_of_int x * primary_frequency) * primary_amplitude;
          secondary_height = sin (real_of_int x * secondary_frequency) * secondary_amplitude;
          tertiary_height = sin (real_of_int x * tertiary_frequency) * tertiary_amplitude;
          ripple_height = sin (real_of_int x * ripple_frequency) * ripple_amplitude;
          asymmetry_factor = sin (real_of_int x * asymmetry_frequency);
          slope_modifier = asymmetry_factor * 20 * complexity;
          primary_height' = (if asymmetry_factor > 0 then primary_height + slope_modifier
                             else primary_height);
          secondary_height' = (if asymmetry_factor > 0 then secondary_height + slope_modifier * (5 / 10)
                               else secondary_height);
          (u, g1) = random_random g;
          random_variation = (u - 5 / 10) * 12 * complexity
      in ebind (major_dune_draws x g1) (\<lambda>g2.
           let total_height = real_of_int base_ground_level + primary_height' + secondary_height' +
                              tertiary_height + ripple_height + random_variation;
               total_height' = max (real_of_int min_height)
                                   (min (real_of_int max_height) total_height)
           in Inr (py_int total_height', g2)))"

definition generate_height_map :: "int \<Rightarrow> real \<Rightarrow> rng \<Rightarrow> py_error + int list \<times> rng" where
  "generate_height_map w complexity g =
     efold (\<lambda>x (hmap, g1).
              ebind (height_column complexity x g1) (\<lambda>(v, g2). Inr (hmap @ [v], g2)))
       (py_range 0 w) ([], g)"

text \<open>\<^verbatim>\<open>smooth_terrain\<close>: each pass reads the previous list and writes a copy.\<close>

definition smooth_pass :: "int list \<Rightarrow> py_error + int list" where
  "smooth_pass smoothed =
     efold (\<lambda>i new_smoothed.
              ebind (py_get smoothed (i - 1)) (\<lambda>a.
                ebind (py_get smoothed i) (\<lambda>b.
                  ebind (py_get smoothed (i + 1)) (\<lambda>c.
                    py_set new_smoothed i
                      (py_int (real_of_int a * (25 / 100) + real_of_int b * (5 / 10) +
                               real_of_int c * (25 / 100)))))))
       (py_range 1 (int (length smoothed) - 1)) smoothed"

definition smooth_terrain :: "int list \<Rightarrow> int \<Rightarrow> py_error + int list" where
  "smooth_terrain hmap iterations =
     efold (\<lambda>_ smoothed. smooth_pass smoothed) (py_range 0 iterations) hmap"

text \<open>\<^verbatim>\<open>add_sand_dunes\<close>: the update of one column by one dune, one dune, and all dunes.  The
  float power \<^verbatim>\<open>**\<close> has a base in \<open>[0, 1)\<close> here and is \<^const>\<open>powr\<close>.\<close>

definition dune_column :: "int \<Rightarrow> int \<Rightarrow> real \<Rightarrow> int \<Rightarrow> int \<Rightarrow> int list \<Rightarrow> py_error + int list" where
  "dune_column dune_center dune_width dune_height steep_side x enhanced_map =
     (let distance_from_center = \<bar>x - dune_center\<bar> in
      if distance_from_center < dune_width then
        (let ratio = real_of_int distance_from_center / real_of_int dune_width;
             influence = (if (x - dune_center) * steep_side > 0
                          then 1 - ratio powr (15 / 10) else 1 - ratio powr (7 / 10)) in
         if influence > 0 then
           ebind (py_get enhanced_map x) (\<lambda>e.
             py_set enhanced_map x (py_int (real_of_int e - influence * dune_height)))
         else Inr enhanced_map)
      else Inr enhanced_map)"

definition one_dune :: "real \<Rightarrow> int list \<times> rng \<Rightarrow> py_error + int list \<times> rng" where
  "one_dune complexity = (\<lambda>(enhanced_map, g).
     let w = int (length enhanced_map) in
     ebind (random_randint 100 (w - 100) g) (\<lambda>(dune_center, g1).
       ebind (random_randint 80 150 g1) (\<lambda>(dune_width, g2).
         ebind (random_randint 30 60 g2) (\<lambda>(k, g3).
           ebind (random_choice [- 1, 1] g3) (\<lambda>(steep_side, g4).
             ebind (efold (dune_column dune_center dune_width (real_of_int k * complexity) steep_side)
                      (py_range (max 0 (dune_center - dune_width)) (min w (dune_center + dune_width)))
                      enhanced_map)
               (\<lambda>enhanced_map'. Inr (enhanced_map', g4)))))))"

definition add_sand_dunes :: "int list \<Rightarrow> real \<Rightarrow> rng \<Rightarrow> py_error + int list \<times> rng" where
  "add_sand_dunes hmap complexity g =
     (let num_dunes = py_int (3 + complexity * 2) in
      efold (\<lambda>_. one_dune complexity) (py_range 0 num_dunes) (hmap, g))"

definition generate_varied_terrain :: "int \<Rightarrow> real \<Rightarrow> rng \<Rightarrow> py_error + int list \<times> rng" where
  "generate_varied_terrain w complexity g =
     ebind (generate_height_map w complexity g) (\<lambda>(hmap, g1).
       ebind (add_sand_dunes hmap complexity g1) (\<lambda>(dune_enhanced_map, g2).
         ebind (smooth_terrain dune_enhanced_map 1) (\<lambda>smoothed_height_map.
           Inr (smoothed_height_map, g2))))"

section \<open>Well-formed states\<close>

definition rect :: "bool list list \<Rightarrow> int \<Rightarrow> int \<Rightarrow> bool" where
  "rect px w h \<longleftrightarrow> 0 \<le> w \<and> 0 \<le> h \<and> length px = nat w \<and> list_all (\<lambda>col. length col = nat h) px"

text \<open>The data model: a grid of \<open>width\<close> columns of \<open>height\<close> cells each and a height profile with
  one entry per column.\<close>

definition well_formed :: "terrain_map \<Rightarrow> bool" where
  "well_formed s \<longleftrightarrow>
     rect (terrain_pixels s) (width s) (height s) \<and> length (height_map s) = nat (width s)"

text \<open>\<open>grid[x][y]\<close> for a cell inside the grid, and the height-profile entry the data model
  prescribes for a column: the smallest solid row, or the grid height when there is none.\<close>

definition solid :: "bool list list \<Rightarrow> int \<Rightarrow> int \<Rightarrow> bool" where
  "solid px x y \<longleftrightarrow> px ! nat x ! nat y"

definition column_top :: "bool list list \<Rightarrow> int \<Rightarrow> int \<Rightarrow> int \<Rightarrow> bool" where
  "column_top px h x t \<longleftrightarrow>
     0 \<le> t \<and> t \<le> h \<and> list_all (\<lambda>y. \<not> solid px x y) (py_range 0 t) \<and> (t < h \<longrightarrow> solid px x t)"

text \<open>The first solid rows that the window of \<^verbatim>\<open>get_ground_height\<close> around column \<open>x0\<close> sees.\<close>

definition window_tops :: "terrain_map \<Rightarrow> int \<Rightarrow> int set" where
  "window_tops s x0 =
     {t. \<exists>dx. - 3 \<le> dx \<and> dx \<le> 3 \<and> 0 \<le> x0 + dx \<and> x0 + dx < width s \<and> t < height s \<and>
              column_top (terrain_pixels s) (height s) (x0 + dx) t}"

definition consistent :: "terrain_map \<Rightarrow> bool" where
  "consistent s \<longleftrightarrow>
     list_all (\<lambda>x. column_top (terrain_pixels s) (height s) x (height_map s ! nat x))
       (py_range 0 (width s))"

section \<open>Concrete states\<close>

text \<open>\<^verbatim>\<open>TerrainMap(3, 4, [3, 1, 3])\<close>: three columns of four rows; the middle column rises to
  row 1, its neighbours only to row 3.\<close>

definition map_313 :: terrain_map where
  "map_313 = \<lparr>width = 3, height = 4, height_map = [3, 1, 3], ground_level = 2,
     terrain_pixels = [[False, False, False, True], [False, True, True, True],
                       [False, False, False, True]],
     craters = []\<rparr>"

text \<open>\<^verbatim>\<open>TerrainMap(2, 2, 0)\<close>: a two-by-two grid, solid everywhere.\<close>

definition map_22 :: terrain_map where
  "map_22 = \<lparr>width = 2, height = 2, height_map = [0, 0], ground_level = 0,
     terrain_pixels = [[True, True], [True, True]], craters = []\<rparr>"

text \<open>\<^verbatim>\<open>TerrainMap(8, 4, 1)\<close>: eight columns of four rows, solid from row 1 down.\<close>

definition map_841 :: terrain_map where
  "map_841 = \<lparr>width = 8, height = 4, height_map = [1, 1, 1, 1, 1, 1, 1, 1], ground_level = 1,
     terrain_pixels = [[False, True, True, True], [False, True, True, True],
                       [False, True, True, True], [False, True, True, True],
                       [False, True, True, True], [False, True, True, True],
                       [False, True, True, True], [False, True, True, True]],
     craters = []\<rparr>"

section \<open>Basic facts\<close>

lemma ebind_Inr [simp]: "ebind (Inr v) f = f v" by (simp add: ebind_def)
lemma ebind_Inl [simp]: "ebind (Inl e) f = Inl e" by (simp add: ebind_def)
lemma ebind_eq_Inr: "ebind m f = Inr r \<longleftrightarrow> (\<exists>v. m = Inr v \<and> f v = Inr r)"
  by (cases m) simp_all

lemma py_range_set [simp]: "set (py_range a b) = {y. a \<le> y \<and> y < b}"
  by (auto simp: py_range_def)

lemma py_get_in: "0 \<le> i \<Longrightarrow> i < int (length xs) \<Longrightarrow> py_get xs i = Inr (xs ! nat i)"
  by (simp add: py_get_def py_index_def)

lemma py_set_in: "0 \<le> i \<Longrightarrow> i < int (length xs) \<Longrightarrow> py_set xs i v = Inr (xs[nat i := v])"
  by (simp add: py_set_def py_index_def)

lemma rect_col: "rect px w h \<Longrightarrow> 0 \<le> x \<Longrightarrow> x < w \<Longrightarrow> length (px ! nat x) = nat h"
  by (auto simp: rect_def list_all_length)

lemma pixel_in: "rect px w h \<Longrightarrow> 0 \<le> x \<Longrightarrow> x < w \<Longrightarrow> 0 \<le> y \<Longrightarrow> y < h \<Longrightarrow>
   pixel px x y = Inr (solid px x y)"
  by (frule (2) rect_col) (simp add: pixel_def solid_def py_get_in rect_def)

lemma set_pixel_in: "rect px w h \<Longrightarrow> 0 \<le> x \<Longrightarrow> x < w \<Longrightarrow> 0 \<le> y \<Longrightarrow> y < h \<Longrightarrow>
   set_pixel px x y v = Inr (px[nat x := (px ! nat x)[nat y := v]])"
  by (frule (2) rect_col) (simp add: set_pixel_def py_get_in py_set_in rect_def)

lemma rect_update: "rect px w h \<Longrightarrow> 0 \<le> x \<Longrightarrow> x < w \<Longrightarrow>
   rect (px[nat x := (px ! nat x)[nat y := v]]) w h"
  by (auto simp: rect_def list_all_length nth_list_update)

lemma solid_update: "rect px w h \<Longrightarrow> 0 \<le> x \<Longrightarrow> x < w \<Longrightarrow> 0 \<le> y \<Longrightarrow> y < h \<Longrightarrow>
   0 \<le> a \<Longrightarrow> a < w \<Longrightarrow> 0 \<le> b \<Longrightarrow> b < h \<Longrightarrow>
   solid (px[nat x := (px ! nat x)[nat y := v]]) a b = (if a = x \<and> b = y then v else solid px a b)"
  by (frule (2) rect_col) (auto simp: solid_def rect_def nth_list_update)

lemma efold_rule:
  assumes "I pre s"
    and "\<And>p a s'. I p s' \<Longrightarrow> a \<in> set as \<Longrightarrow> \<exists>s''. f a s' = Inr s'' \<and> I (p @ [a]) s''"
  shows "\<exists>s'. efold f as s = Inr s' \<and> I (pre @ as) s'"
  using assms
proof (induction as arbitrary: pre s)
  case Nil
  then show ?case by simp
next
  case (Cons a as)
  from Cons.prems obtain s1 where s1: "f a s = Inr s1" "I (pre @ [a]) s1"
    by (meson list.set_intros(1))
  have "\<exists>s'. efold f as s1 = Inr s' \<and> I ((pre @ [a]) @ as) s'"
    by (rule Cons.IH[OF s1(2)]) (use Cons.prems(2) in auto)
  with s1 show ?case by simp
qed

lemma carve_inner:
  assumes "rect px w h" "0 \<le> x" "x < w" "set ys \<subseteq> {0..<h}"
  shows "\<exists>px'. efold (\<lambda>y q. if P y then set_pixel q x y False else Inr q) ys px = Inr px' \<and>
           rect px' w h \<and>
           (\<forall>a b. 0 \<le> a \<and> a < w \<and> 0 \<le> b \<and> b < h \<longrightarrow>
              solid px' a b = (solid px a b \<and> \<not> (a = x \<and> b \<in> set ys \<and> P b)))"
proof -
  let ?I = "\<lambda>p q. rect q w h \<and> (\<forall>a b. 0 \<le> a \<and> a < w \<and> 0 \<le> b \<and> b < h \<longrightarrow>
              solid q a b = (solid px a b \<and> \<not> (a = x \<and> b \<in> set p \<and> P b)))"
  have "\<exists>px'. efold (\<lambda>y q. if P y then set_pixel q x y False else Inr q) ys px = Inr px' \<and>
          ?I ([] @ ys) px'"
  proof (rule efold_rule[where I = ?I])
    show "?I [] px" using assms(1) by simp
  next
    fix p y q
    assume inv: "?I p q" and y: "y \<in> set ys"
    from y assms(4) have yr: "0 \<le> y" "y < h" by auto
    show "\<exists>q'. (if P y then set_pixel q x y False else Inr q) = Inr q' \<and> ?I (p @ [y]) q'"
    proof (cases "P y")
      case True
      let ?q' = "q[nat x := (q ! nat x)[nat y := False]]"
      from inv have rq: "rect q w h" by simp
      have "set_pixel q x y False = Inr ?q'"
        by (rule set_pixel_in[OF rq assms(2,3) yr])
      moreover have "rect ?q' w h" using inv assms(2,3) by (simp add: rect_update)
      moreover have "\<forall>a b. 0 \<le> a \<and> a < w \<and> 0 \<le> b \<and> b < h \<longrightarrow>
              solid ?q' a b = (solid px a b \<and> \<not> (a = x \<and> b \<in> set (p @ [y]) \<and> P b))"
      proof (intro allI impI)
        fix a b assume ab: "0 \<le> a \<and> a < w \<and> 0 \<le> b \<and> b < h"
        then have "solid ?q' a b = (if a = x \<and> b = y then False else solid q a b)"
          using solid_update[OF rq assms(2,3) yr, of a b False] by simp
        moreover have "solid q a b = (solid px a b \<and> \<not> (a = x \<and> b \<in> set p \<and> P b))"
          using inv ab by blast
        ultimately show "solid ?q' a b = (solid px a b \<and> \<not> (a = x \<and> b \<in> set (p @ [y]) \<and> P b))"
          using True by auto
      qed
      ultimately show ?thesis using True by simp
    next
      case False
      then show ?thesis using inv by auto
    qed
  qed
  then show ?thesis by simp
qed

lemma carve_ok:
  assumes "rect px w h" "set xs \<subseteq> {0..<w}" "set ys \<subseteq> {0..<h}"
  shows "\<exists>px'. carve cx cy r xs ys px = Inr px' \<and> rect px' w h \<and>
           (\<forall>a b. 0 \<le> a \<and> a < w \<and> 0 \<le> b \<and> b < h \<longrightarrow>
              solid px' a b = (solid px a b \<and>
                 \<not> (a \<in> set xs \<and> b \<in> set ys \<and> distance a b cx cy \<le> real_of_int r)))"
proof -
  let ?P = "\<lambda>a b. distance a b cx cy \<le> real_of_int r"
  let ?I = "\<lambda>p q. rect q w h \<and> (\<forall>a b. 0 \<le> a \<and> a < w \<and> 0 \<le> b \<and> b < h \<longrightarrow>
              solid q a b = (solid px a b \<and> \<not> (a \<in> set p \<and> b \<in> set ys \<and> ?P a b)))"
  have "\<exists>px'. efold (\<lambda>x p. efold (\<lambda>y q. if ?P x y then set_pixel q x y False else Inr q) ys p) xs px
            = Inr px' \<and> ?I ([] @ xs) px'"
  proof (rule efold_rule[where I = ?I])
    show "?I [] px" using assms(1) by simp
  next
    fix p x q
    assume inv: "?I p q" and x: "x \<in> set xs"
    from x assms(2) have xr: "0 \<le> x" "x < w" by auto
    from inv have rq: "rect q w h" by simp
    from carve_inner[OF rq xr assms(3), of "?P x"]
    obtain q' where q': "efold (\<lambda>y q. if ?P x y then set_pixel q x y False else Inr q) ys q = Inr q'"
      "rect q' w h"
      "\<forall>a b. 0 \<le> a \<and> a < w \<and> 0 \<le> b \<and> b < h \<longrightarrow>
          solid q' a b = (solid q a b \<and> \<not> (a = x \<and> b \<in> set ys \<and> ?P x b))"
      by blast
    have "\<forall>a b. 0 \<le> a \<and> a < w \<and> 0 \<le> b \<and> b < h \<longrightarrow>
              solid q' a b = (solid px a b \<and> \<not> (a \<in> set (p @ [x]) \<and> b \<in> set ys \<and> ?P a b))"
      using inv q'(3) by auto
    with q'(1,2)
    show "\<exists>q'. efold (\<lambda>y q. if ?P x y then set_pixel q x y False else Inr q) ys q = Inr q' \<and>
             ?I (p @ [x]) q'" by blast
  qed
  then show ?thesis by (simp add: carve_def)
qed

lemma first_solid_upto:
  assumes "rect px w h" "0 \<le> x" "x < w" "0 \<le> a" "b < h"
  shows "\<exists>r. first_solid px x [a..b] = Inr r \<and>
           (case r of None \<Rightarrow> \<forall>y. a \<le> y \<and> y \<le> b \<longrightarrow> \<not> solid px x y
                    | Some t \<Rightarrow> a \<le> t \<and> t \<le> b \<and> solid px x t \<and>
                                (\<forall>y. a \<le> y \<and> y < t \<longrightarrow> \<not> solid px x y))"
  using assms(4)
proof (induction "nat (b + 1 - a)" arbitrary: a)
  case 0
  then have "[a..b] = []" by simp
  moreover have "\<forall>y. a \<le> y \<and> y \<le> b \<longrightarrow> \<not> solid px x y" using 0 by auto
  ultimately show ?case by simp
next
  case (Suc n)
  then have ab: "a \<le> b" by linarith
  then have unf: "[a..b] = a # [a + 1..b]" by (simp add: upto_rec1)
  have pa: "pixel px x a = Inr (solid px x a)"
    using assms(1-3,5) Suc.prems ab by (simp add: pixel_in)
  show ?case
  proof (cases "solid px x a")
    case True
    then show ?thesis using unf pa ab by auto
  next
    case False
    have "n = nat (b + 1 - (a + 1))" using Suc.hyps(2) by linarith
    moreover have "0 \<le> a + 1" using Suc.prems by simp
    ultimately obtain r where r: "first_solid px x [a + 1..b] = Inr r"
      "(case r of None \<Rightarrow> \<forall>y. a + 1 \<le> y \<and> y \<le> b \<longrightarrow> \<not> solid px x y
                | Some t \<Rightarrow> a + 1 \<le> t \<and> t \<le> b \<and> solid px x t \<and>
                            (\<forall>y. a + 1 \<le> y \<and> y < t \<longrightarrow> \<not> solid px x y))"
      using Suc.hyps(1)[of "a + 1"] by blast
    have step: "\<And>y. a \<le> y \<Longrightarrow> y = a \<or> a + 1 \<le> y" by linarith
    have "first_solid px x [a..b] = Inr r" using unf pa False r(1) by simp
    moreover have "(case r of None \<Rightarrow> \<forall>y. a \<le> y \<and> y \<le> b \<longrightarrow> \<not> solid px x y
                    | Some t \<Rightarrow> a \<le> t \<and> t \<le> b \<and> solid px x t \<and>
                                (\<forall>y. a \<le> y \<and> y < t \<longrightarrow> \<not> solid px x y))"
    proof (cases r)
      case None
      then show ?thesis using r(2) False step by auto
    next
      case (Some t)
      then have t: "a + 1 \<le> t" "t \<le> b" "solid px x t"
        "\<forall>y. a + 1 \<le> y \<and> y < t \<longrightarrow> \<not> solid px x y" using r(2) by auto
      have "\<forall>y. a \<le> y \<and> y < t \<longrightarrow> \<not> solid px x y"
      proof (intro allI impI)
        fix y assume "a \<le> y \<and> y < t"
        then show "\<not> solid px x y" using step[of y] t(4) False by auto
      qed
      then show ?thesis using Some t by simp
    qed
    ultimately show ?thesis by blast
  qed
qed

lemma distance_le_iff:
  "distance a b cx cy \<le> real_of_int r \<longleftrightarrow> 0 \<le> r \<and> (a - cx)\<^sup>2 + (b - cy)\<^sup>2 \<le> r\<^sup>2"
proof (cases "0 \<le> r")
  case True
  have "sqrt (real_of_int ((a - cx)\<^sup>2 + (b - cy)\<^sup>2)) \<le> sqrt ((real_of_int r)\<^sup>2)
        \<longleftrightarrow> real_of_int ((a - cx)\<^sup>2 + (b - cy)\<^sup>2) \<le> (real_of_int r)\<^sup>2"
    by (rule real_sqrt_le_iff)
  moreover have "sqrt ((real_of_int r)\<^sup>2) = real_of_int r" using True by simp
  moreover have "real_of_int ((a - cx)\<^sup>2 + (b - cy)\<^sup>2) \<le> (real_of_int r)\<^sup>2
        \<longleftrightarrow> (a - cx)\<^sup>2 + (b - cy)\<^sup>2 \<le> r\<^sup>2"
    by (metis of_int_le_iff of_int_power)
  ultimately show ?thesis using True by (simp add: distance_def)
next
  case False
  have "0 \<le> distance a b cx cy" by (simp add: distance_def)
  with False show ?thesis by auto
qed

lemma distance_in_box:
  assumes "distance a b cx cy \<le> real_of_int r"
  shows "cx - r \<le> a \<and> a \<le> cx + r \<and> cy - r \<le> b \<and> b \<le> cy + r"
proof -
  from assms have r: "0 \<le> r" and le: "(a - cx)\<^sup>2 + (b - cy)\<^sup>2 \<le> r\<^sup>2"
    by (simp_all add: distance_le_iff)
  have "(a - cx)\<^sup>2 \<le> r\<^sup>2" using le zero_le_power2[of "b - cy"] by linarith
  then have 1: "\<bar>a - cx\<bar> \<le> r" using r by (metis abs_le_square_iff abs_of_nonneg)
  have "(b - cy)\<^sup>2 \<le> r\<^sup>2" using le zero_le_power2[of "a - cx"] by linarith
  then have 2: "\<bar>b - cy\<bar> \<le> r" using r by (metis abs_le_square_iff abs_of_nonneg)
  from 1 2 show ?thesis by linarith
qed

lemma column_top_unique:
  assumes "column_top px h x t" "column_top px h x t'"
  shows "t = t'"
proof (rule ccontr)
  assume ne: "t \<noteq> t'"
  from assms have a: "0 \<le> t" "t \<le> h" "\<forall>y. 0 \<le> y \<and> y < t \<longrightarrow> \<not> solid px x y" "t < h \<longrightarrow> solid px x t"
    and b: "0 \<le> t'" "t' \<le> h" "\<forall>y. 0 \<le> y \<and> y < t' \<longrightarrow> \<not> solid px x y" "t' < h \<longrightarrow> solid px x t'"
    by (auto simp: column_top_def list_all_iff)
  from ne consider "t < t'" | "t' < t" by linarith
  then show False
  proof cases
    case 1
    then show ?thesis using a b by auto
  next
    case 2
    then show ?thesis using a b by auto
  qed
qed

lemma first_solid_top:
  assumes "rect px w h" "0 \<le> x" "x < w"
  shows "\<exists>r. first_solid px x (py_range 0 h) = Inr r \<and>
              column_top px h x (case r of Some y \<Rightarrow> y | None \<Rightarrow> h)"
proof -
  from assms(1) have h: "0 \<le> h" by (simp add: rect_def)
  from first_solid_upto[OF assms, of 0 "h - 1"]
  obtain r where r: "first_solid px x [0..h - 1] = Inr r"
    "(case r of None \<Rightarrow> \<forall>y. 0 \<le> y \<and> y \<le> h - 1 \<longrightarrow> \<not> solid px x y
              | Some t \<Rightarrow> 0 \<le> t \<and> t \<le> h - 1 \<and> solid px x t \<and>
                          (\<forall>y. 0 \<le> y \<and> y < t \<longrightarrow> \<not> solid px x y))"
    by auto
  have "column_top px h x (case r of Some y \<Rightarrow> y | None \<Rightarrow> h)"
    using r(2) h by (cases r) (auto simp: column_top_def list_all_iff)
  with r(1) show ?thesis by (auto simp: py_range_def)
qed

lemma update_height_map_ok:
  assumes "rect (terrain_pixels s) (width s) (height s)" "length (height_map s) = nat (width s)"
  shows "\<exists>hm'. update_height_map s = Inr (s\<lparr>height_map := hm'\<rparr>) \<and>
            length hm' = nat (width s) \<and>
            (\<forall>x. 0 \<le> x \<and> x < width s \<longrightarrow>
                 column_top (terrain_pixels s) (height s) x (hm' ! nat x))"
proof -
  let ?px = "terrain_pixels s" and ?w = "width s" and ?h = "height s"
  let ?f = "\<lambda>x hm. ebind (first_solid ?px x (py_range 0 ?h))
                       (\<lambda>r. py_set hm x (case r of Some y \<Rightarrow> y | None \<Rightarrow> ?h))"
  let ?I = "\<lambda>p hm. length hm = nat ?w \<and>
               (\<forall>x \<in> set p. 0 \<le> x \<and> x < ?w \<and> column_top ?px ?h x (hm ! nat x))"
  have "\<exists>hm'. efold ?f (py_range 0 ?w) (height_map s) = Inr hm' \<and> ?I ([] @ py_range 0 ?w) hm'"
  proof (rule efold_rule[where I = ?I])
    show "?I [] (height_map s)" using assms(2) by simp
  next
    fix p x hm
    assume inv: "?I p hm" and x: "x \<in> set (py_range 0 ?w)"
    then have xr: "0 \<le> x" "x < ?w" by auto
    from first_solid_top[OF assms(1) xr]
    obtain r where r: "first_solid ?px x (py_range 0 ?h) = Inr r"
      "column_top ?px ?h x (case r of Some y \<Rightarrow> y | None \<Rightarrow> ?h)" by blast
    let ?v = "case r of Some y \<Rightarrow> y | None \<Rightarrow> ?h"
    have len: "length hm = nat ?w" using inv by simp
    have "py_set hm x ?v = Inr (hm[nat x := ?v])"
      using xr len by (simp add: py_set_in)
    then have 1: "?f x hm = Inr (hm[nat x := ?v])" using r(1) by simp
    have 2: "\<forall>x' \<in> set (p @ [x]). 0 \<le> x' \<and> x' < ?w \<and> column_top ?px ?h x' (hm[nat x := ?v] ! nat x')"
    proof
      fix x' assume "x' \<in> set (p @ [x])"
      then consider "x' = x" | "x' \<in> set p" "x' \<noteq> x" by auto
      then show "0 \<le> x' \<and> x' < ?w \<and> column_top ?px ?h x' (hm[nat x := ?v] ! nat x')"
      proof cases
        case 1
        then show ?thesis using xr r(2) len by simp
      next
        case 2
        then have "0 \<le> x'" "x' < ?w" "column_top ?px ?h x' (hm ! nat x')" using inv by auto
        moreover have "nat x' \<noteq> nat x" using 2(2) xr(1) \<open>0 \<le> x'\<close> by simp
        ultimately show ?thesis by simp
      qed
    qed
    have 3: "length (hm[nat x := ?v]) = nat ?w" using len by simp
    from 1 2 3 show "\<exists>hm'. ?f x hm = Inr hm' \<and> ?I (p @ [x]) hm'" by blast
  qed
  then obtain hm' where hm': "efold ?f (py_range 0 ?w) (height_map s) = Inr hm'"
    "length hm' = nat ?w" "\<forall>x \<in> set (py_range 0 ?w). column_top ?px ?h x (hm' ! nat x)"
    by auto
  have "update_height_map s = Inr (s\<lparr>height_map := hm'\<rparr>)"
    using hm'(1) by (simp add: update_height_map_def)
  then show ?thesis using hm'(2,3) by auto
qed

lemma consistent_iff:
  "consistent s \<longleftrightarrow> (\<forall>x. 0 \<le> x \<and> x < width s \<longrightarrow>
       column_top (terrain_pixels s) (height s) x (height_map s ! nat x))"
  by (auto simp: consistent_def list_all_iff)

lemma create_crater_ok:
  assumes "well_formed s"
  shows "\<exists>s'. create_crater s cx cy r now = Inr s' \<and> well_formed s' \<and> consistent s' \<and>
           width s' = width s \<and> height s' = height s \<and> ground_level s' = ground_level s \<and>
           craters s' = craters s @ [\<lparr>crater_x = py_int cx, crater_y = py_int cy,
                                       radius = r, creation_time = now\<rparr>] \<and>
           (\<forall>a b. 0 \<le> a \<and> a < width s \<and> 0 \<le> b \<and> b < height s \<longrightarrow>
              solid (terrain_pixels s') a b =
                (solid (terrain_pixels s) a b \<and>
                 \<not> distance a b (py_int cx) (py_int cy) \<le> real_of_int r))"
proof -
  let ?cx = "py_int cx" and ?cy = "py_int cy"
  let ?w = "width s" and ?h = "height s" and ?px = "terrain_pixels s"
  let ?c = "\<lparr>crater_x = ?cx, crater_y = ?cy, radius = r, creation_time = now\<rparr>"
  let ?xs = "py_range (max 0 (?cx - r)) (min ?w (?cx + r + 1))"
  let ?ys = "py_range (max 0 (?cy - r)) (min ?h (?cy + r + 1))"
  from assms have rect: "rect ?px ?w ?h" and len: "length (height_map s) = nat ?w"
    by (simp_all add: well_formed_def)
  have xs: "set ?xs \<subseteq> {0..<?w}" and ys: "set ?ys \<subseteq> {0..<?h}" by auto
  from carve_ok[OF rect xs ys, of ?cx ?cy r]
  obtain px' where px': "carve ?cx ?cy r ?xs ?ys ?px = Inr px'" "rect px' ?w ?h"
    "\<forall>a b. 0 \<le> a \<and> a < ?w \<and> 0 \<le> b \<and> b < ?h \<longrightarrow>
        solid px' a b = (solid ?px a b \<and>
           \<not> (a \<in> set ?xs \<and> b \<in> set ?ys \<and> distance a b ?cx ?cy \<le> real_of_int r))"
    by blast
  let ?s2 = "s\<lparr>craters := craters s @ [?c], terrain_pixels := px'\<rparr>"
  have "rect (terrain_pixels ?s2) (width ?s2) (height ?s2)" using px'(2) by simp
  moreover have "length (height_map ?s2) = nat (width ?s2)" using len by simp
  ultimately obtain hm' where hm': "update_height_map ?s2 = Inr (?s2\<lparr>height_map := hm'\<rparr>)"
    "length hm' = nat (width ?s2)"
    "\<forall>x. 0 \<le> x \<and> x < width ?s2 \<longrightarrow>
        column_top (terrain_pixels ?s2) (height ?s2) x (hm' ! nat x)"
    using update_height_map_ok[of ?s2] by blast
  let ?s' = "?s2\<lparr>height_map := hm'\<rparr>"
  have run: "create_crater s cx cy r now = Inr ?s'"
    using px'(1) hm'(1) by (simp add: create_crater_def Let_def)
  have wf': "well_formed ?s'" using px'(2) hm'(2) by (simp add: well_formed_def)
  have cons: "consistent ?s'" using hm'(3) by (simp add: consistent_iff)
  have cells: "\<forall>a b. 0 \<le> a \<and> a < ?w \<and> 0 \<le> b \<and> b < ?h \<longrightarrow>
      solid (terrain_pixels ?s') a b =
        (solid ?px a b \<and> \<not> distance a b ?cx ?cy \<le> real_of_int r)"
  proof (intro allI impI)
    fix a b assume ab: "0 \<le> a \<and> a < ?w \<and> 0 \<le> b \<and> b < ?h"
    have "distance a b ?cx ?cy \<le> real_of_int r \<Longrightarrow> a \<in> set ?xs \<and> b \<in> set ?ys"
      using distance_in_box[of a b ?cx ?cy r] ab by auto
    then show "solid (terrain_pixels ?s') a b =
        (solid ?px a b \<and> \<not> distance a b ?cx ?cy \<le> real_of_int r)"
      using px'(3) ab by auto
  qed
  show ?thesis
    by (rule exI[of _ ?s']) (use run wf' cons cells in simp)
qed

lemma py_int_of_int [simp]: "py_int (real_of_int n) = n"
  by (simp add: py_int_def)

lemma py_int_bounds:
  assumes "0 \<le> v" "v < real_of_int n"
  shows "0 \<le> py_int v \<and> py_int v < n"
  using assms by (simp add: py_int_def floor_less_iff)

lemma is_solid_at_ok:
  assumes "rect (terrain_pixels s) (width s) (height s)"
  shows "is_solid_at s x y =
           Inr (0 \<le> x \<and> x < real_of_int (width s) \<and> 0 \<le> y \<and> y < real_of_int (height s) \<and>
                solid (terrain_pixels s) (py_int x) (py_int y))"
proof (cases "x < 0 \<or> x \<ge> real_of_int (width s) \<or> y < 0 \<or> y \<ge> real_of_int (height s)")
  case True
  then show ?thesis by (auto simp: is_solid_at_def)
next
  case False
  then have x: "0 \<le> py_int x \<and> py_int x < width s" and y: "0 \<le> py_int y \<and> py_int y < height s"
    using py_int_bounds[of x "width s"] py_int_bounds[of y "height s"] by auto
  have "pixel (terrain_pixels s) (py_int x) (py_int y) = Inr (solid (terrain_pixels s) (py_int x) (py_int y))"
    using pixel_in[OF assms] x y by blast
  then show ?thesis using False by (auto simp: is_solid_at_def)
qed

lemma is_solid_at_int:
  assumes "rect (terrain_pixels s) (width s) (height s)"
  shows "is_solid_at s (real_of_int a) (real_of_int b) =
           Inr (0 \<le> a \<and> a < width s \<and> 0 \<le> b \<and> b < height s \<and> solid (terrain_pixels s) a b)"
  using is_solid_at_ok[OF assms, of "real_of_int a" "real_of_int b"] by simp

lemma clamp_x_range: "0 < width s \<Longrightarrow> 0 \<le> clamp_x s x \<and> clamp_x s x < width s"
  by (auto simp: clamp_x_def)

lemma clamp_x_idem [simp]: "clamp_x s (real_of_int (clamp_x s x)) = clamp_x s x"
  by (auto simp: clamp_x_def)

lemma clamp_x_low: "x < 0 \<Longrightarrow> 0 < width s \<Longrightarrow> clamp_x s x = 0"
proof -
  assume "x < 0" "0 < width s"
  then have "py_int x \<le> 0" by (simp add: py_int_def ceiling_le_iff)
  then show ?thesis using \<open>0 < width s\<close> by (auto simp: clamp_x_def)
qed

lemma clamp_x_high: "real_of_int (width s) \<le> x \<Longrightarrow> 0 < width s \<Longrightarrow> clamp_x s x = width s - 1"
proof -
  assume a: "real_of_int (width s) \<le> x" "0 < width s"
  then have "width s \<le> py_int x" by (simp add: py_int_def le_floor_iff)
  then show ?thesis using a(2) by (auto simp: clamp_x_def)
qed

lemma window_tops_finite [simp]: "finite (window_tops s x0)"
proof -
  have "window_tops s x0 \<subseteq> {0..height s}"
    by (auto simp: window_tops_def column_top_def)
  then show ?thesis by (rule finite_subset) simp
qed

lemma get_ground_height_ok:
  assumes "well_formed s" "0 < width s"
  shows "get_ground_height s x =
           Inr (Min (insert (height_map s ! nat (clamp_x s x)) (window_tops s (clamp_x s x))))"
proof -
  let ?x0 = "clamp_x s x" and ?px = "terrain_pixels s" and ?w = "width s" and ?h = "height s"
  let ?m0 = "height_map s ! nat ?x0"
  from assms(1) have rect: "rect ?px ?w ?h" and len: "length (height_map s) = nat ?w"
    by (simp_all add: well_formed_def)
  have x0: "0 \<le> ?x0" "?x0 < ?w" using clamp_x_range[OF assms(2)] by auto
  define T where "T = (\<lambda>p. {t. \<exists>dx \<in> set p. 0 \<le> ?x0 + dx \<and> ?x0 + dx < ?w \<and> t < ?h \<and>
                                column_top ?px ?h (?x0 + dx) t})"
  have finT: "finite (T p)" for p
  proof -
    have "T p \<subseteq> {0..?h}" by (auto simp: T_def column_top_def)
    then show ?thesis by (rule finite_subset) simp
  qed
  define f where "f = (\<lambda>dx m. let check_x = ?x0 + dx in
                 if 0 \<le> check_x \<and> check_x < ?w then
                   ebind (first_solid ?px check_x (py_range 0 ?h))
                     (\<lambda>r. case r of Some y \<Rightarrow> Inr (min m y) | None \<Rightarrow> Inr m)
                 else Inr m)"
  define I where "I = (\<lambda>p m. m = Min (insert ?m0 (T p)))"
  have "\<exists>m. efold f (py_range (- 3) (3 + 1)) ?m0 = Inr m \<and> I ([] @ py_range (- 3) (3 + 1)) m"
  proof (rule efold_rule[where I = I])
    show "I [] ?m0" by (simp add: I_def T_def)
  next
    fix p dx m
    assume inv: "I p m" and "dx \<in> set (py_range (- 3) (3 + 1))"
    let ?c = "?x0 + dx"
    show "\<exists>m'. f dx m = Inr m' \<and> I (p @ [dx]) m'"
    proof (cases "0 \<le> ?c \<and> ?c < ?w")
      case False
      then have "T (p @ [dx]) = T p" by (auto simp: T_def)
      moreover have "f dx m = Inr m" using False by (auto simp: f_def Let_def)
      ultimately show ?thesis using inv by (simp add: I_def)
    next
      case True
      then have c: "0 \<le> ?c" "?c < ?w" by auto
      from first_solid_top[OF rect c]
      obtain r where r: "first_solid ?px ?c (py_range 0 ?h) = Inr r"
        "column_top ?px ?h ?c (case r of Some y \<Rightarrow> y | None \<Rightarrow> ?h)" by blast
      show ?thesis
      proof (cases r)
        case None
        have "\<And>t. t < ?h \<Longrightarrow> \<not> column_top ?px ?h ?c t"
          using column_top_unique[OF r(2)] None by auto
        then have "T (p @ [dx]) = T p" by (auto simp: T_def)
        moreover have "f dx m = Inr m" using c r(1) None by (simp add: f_def Let_def)
        ultimately show ?thesis using inv by (simp add: I_def)
      next
        case (Some y)
        then have ct: "column_top ?px ?h ?c y" using r(2) by simp
        have "y \<noteq> ?h" using first_solid_upto[OF rect c, of 0 "?h - 1"] r(1) Some
          by (auto simp: py_range_def)
        then have yh: "y < ?h" using ct by (auto simp: column_top_def)
        have uniq: "\<And>t. column_top ?px ?h ?c t \<Longrightarrow> t = y"
          using column_top_unique[OF ct] by auto
        have "T (p @ [dx]) = insert y (T p)"
        proof (rule set_eqI)
          fix t
          show "t \<in> T (p @ [dx]) \<longleftrightarrow> t \<in> insert y (T p)"
          proof
            assume "t \<in> T (p @ [dx])"
            then obtain d where d: "d \<in> set p \<or> d = dx" "0 \<le> ?x0 + d" "?x0 + d < ?w" "t < ?h"
              "column_top ?px ?h (?x0 + d) t" unfolding T_def by auto
            show "t \<in> insert y (T p)"
            proof (cases "d = dx")
              case True
              then show ?thesis using d(5) uniq by simp
            next
              case False
              then have "t \<in> T p" unfolding T_def using d by blast
              then show ?thesis by simp
            qed
          next
            assume "t \<in> insert y (T p)"
            then consider "t = y" | "t \<in> T p" by blast
            then show "t \<in> T (p @ [dx])"
            proof cases
              case 1
              then show ?thesis unfolding T_def using ct yh c by auto
            next
              case 2
              then show ?thesis unfolding T_def by auto
            qed
          qed
        qed
        then have "insert ?m0 (T (p @ [dx])) = insert y (insert ?m0 (T p))" by blast
        moreover have "Min (insert y (insert ?m0 (T p))) = min y (Min (insert ?m0 (T p)))"
          by (rule Min_insert) (use finT[of p] in simp_all)
        ultimately have "Min (insert ?m0 (T (p @ [dx]))) = min y (Min (insert ?m0 (T p)))"
          by simp
        moreover have "f dx m = Inr (min m y)" using c r(1) Some by (simp add: f_def Let_def)
        ultimately show ?thesis using inv by (simp add: I_def min.commute)
      qed
    qed
  qed
  then obtain m where m: "efold f (py_range (- 3) (3 + 1)) ?m0 = Inr m"
    "m = Min (insert ?m0 (T (py_range (- 3) (3 + 1))))" by (auto simp: I_def)
  have "T (py_range (- 3) (3 + 1)) = window_tops s ?x0"
    by (auto simp: window_tops_def T_def)
  moreover have "py_get (height_map s) ?x0 = Inr ?m0" using x0 len by (simp add: py_get_in)
  ultimately show ?thesis using m by (simp add: get_ground_height_def Let_def f_def)
qed

section \<open>Construction\<close>

text \<open>The constructor, given a ground level or a profile with one entry per column (none
  negative), builds a well-formed map whose column \<open>x\<close> is solid from row \<open>height_map[x]\<close> down;
  its profile is consistent with the grid when no entry exceeds the grid height.\<close>

lemma init_column_ok:
  assumes "rect px w h" "0 \<le> x" "x < w" "0 \<le> g"
  shows "\<exists>px'. init_column h g x px = Inr px' \<and> rect px' w h \<and>
           (\<forall>a b. 0 \<le> a \<and> a < w \<and> 0 \<le> b \<and> b < h \<longrightarrow>
              solid px' a b = (solid px a b \<or> (a = x \<and> g \<le> b)))"
proof -
  define I where "I = (\<lambda>(p :: int list) q. rect q w h \<and>
      (\<forall>a b. 0 \<le> a \<and> a < w \<and> 0 \<le> b \<and> b < h \<longrightarrow>
              solid q a b = (solid px a b \<or> (a = x \<and> b \<in> set p))))"
  have "\<exists>px'. efold (\<lambda>y p. set_pixel p x y True) (py_range g h) px = Inr px' \<and>
          I ([] @ py_range g h) px'"
  proof (rule efold_rule[where I = I])
    show "I [] px" using assms(1) by (simp add: I_def)
  next
    fix p y q
    assume inv: "I p q" and "y \<in> set (py_range g h)"
    then have yr: "0 \<le> y" "y < h" using assms(4) by auto
    from inv have rq: "rect q w h" by (simp add: I_def)
    let ?q' = "q[nat x := (q ! nat x)[nat y := True]]"
    have 1: "set_pixel q x y True = Inr ?q'" by (rule set_pixel_in[OF rq assms(2,3) yr])
    have 2: "rect ?q' w h" by (rule rect_update[OF rq assms(2,3)])
    have 3: "\<forall>a b. 0 \<le> a \<and> a < w \<and> 0 \<le> b \<and> b < h \<longrightarrow>
              solid ?q' a b = (solid px a b \<or> (a = x \<and> b \<in> set (p @ [y])))"
    proof (intro allI impI)
      fix a b assume ab: "0 \<le> a \<and> a < w \<and> 0 \<le> b \<and> b < h"
      then have "solid ?q' a b = (if a = x \<and> b = y then True else solid q a b)"
        using solid_update[OF rq assms(2,3) yr, of a b True] by simp
      moreover have "solid q a b = (solid px a b \<or> (a = x \<and> b \<in> set p))"
        using inv ab unfolding I_def by blast
      ultimately show "solid ?q' a b = (solid px a b \<or> (a = x \<and> b \<in> set (p @ [y])))" by auto
    qed
    show "\<exists>q'. set_pixel q x y True = Inr q' \<and> I (p @ [y]) q'"
      using 1 2 3 unfolding I_def by blast
  qed
  then obtain px' where "init_column h g x px = Inr px'" "I (py_range g h) px'"
    by (auto simp: init_column_def)
  then show ?thesis unfolding I_def by auto
qed

lemma rect_empty: "0 \<le> w \<Longrightarrow> 0 \<le> h \<Longrightarrow> rect (replicate (nat w) (replicate (nat h) False)) w h"
  by (simp add: rect_def list_all_iff)

lemma solid_empty:
  "0 \<le> a \<Longrightarrow> a < w \<Longrightarrow> 0 \<le> b \<Longrightarrow> b < h \<Longrightarrow>
   \<not> solid (replicate (nat w) (replicate (nat h) False)) a b"
  by (simp add: solid_def)

lemma init_grid_ok:
  assumes "0 \<le> w" "0 \<le> h" "length hm = nat w" "\<forall>v \<in> set hm. 0 \<le> v"
  shows "\<exists>px. efold (\<lambda>x px. init_column h (if x < int (length hm) then hm ! nat x else gl) x px)
                  (py_range 0 w) (replicate (nat w) (replicate (nat h) False)) = Inr px \<and>
              rect px w h \<and>
              (\<forall>a b. 0 \<le> a \<and> a < w \<and> 0 \<le> b \<and> b < h \<longrightarrow> solid px a b = (hm ! nat a \<le> b))"
proof -
  let ?px0 = "replicate (nat w) (replicate (nat h) False)"
  define I where "I = (\<lambda>(p :: int list) q. rect q w h \<and>
      (\<forall>a b. 0 \<le> a \<and> a < w \<and> 0 \<le> b \<and> b < h \<longrightarrow>
              solid q a b = (a \<in> set p \<and> hm ! nat a \<le> b)))"
  let ?f = "\<lambda>x px. init_column h (if x < int (length hm) then hm ! nat x else gl) x px"
  have "\<exists>px. efold ?f (py_range 0 w) ?px0 = Inr px \<and> I ([] @ py_range 0 w) px"
  proof (rule efold_rule[where I = I])
    show "I [] ?px0" using rect_empty[OF assms(1,2)] solid_empty[of _ w _ h] by (simp add: I_def)
  next
    fix p x q
    assume inv: "I p q" and "x \<in> set (py_range 0 w)"
    then have xr: "0 \<le> x" "x < w" by auto
    then have xl: "x < int (length hm)" using assms(3) by simp
    then have g0: "0 \<le> hm ! nat x" using assms(4) xr(1) by (simp add: nth_mem)
    from inv have rq: "rect q w h" by (simp add: I_def)
    from init_column_ok[OF rq xr g0]
    obtain q' where q': "init_column h (hm ! nat x) x q = Inr q'" "rect q' w h"
      "\<forall>a b. 0 \<le> a \<and> a < w \<and> 0 \<le> b \<and> b < h \<longrightarrow>
              solid q' a b = (solid q a b \<or> (a = x \<and> hm ! nat x \<le> b))" by blast
    have "\<forall>a b. 0 \<le> a \<and> a < w \<and> 0 \<le> b \<and> b < h \<longrightarrow>
              solid q' a b = (a \<in> set (p @ [x]) \<and> hm ! nat a \<le> b)"
      using q'(3) inv unfolding I_def by auto
    then show "\<exists>q'. ?f x q = Inr q' \<and> I (p @ [x]) q'"
      using q'(1,2) xl unfolding I_def by auto
  qed
  then obtain px where px: "efold ?f (py_range 0 w) ?px0 = Inr px" "I (py_range 0 w) px" by auto
  show ?thesis using px unfolding I_def by auto
qed

lemma TerrainMap_init_ok:
  assumes "0 \<le> w" "0 \<le> h"
    and "case arg of Profile hm \<Rightarrow> hm \<noteq> [] \<and> length hm = nat w \<and> (\<forall>v \<in> set hm. 0 \<le> v)
                   | Level g \<Rightarrow> 0 \<le> g"
  shows "\<exists>s. TerrainMap_init w h arg = Inr s \<and> well_formed s \<and> width s = w \<and> height s = h \<and>
             craters s = [] \<and>
             height_map s = (case arg of Profile hm \<Rightarrow> hm | Level g \<Rightarrow> replicate (nat w) g) \<and>
             (\<forall>a b. 0 \<le> a \<and> a < w \<and> 0 \<le> b \<and> b < h \<longrightarrow>
                solid (terrain_pixels s) a b = (height_map s ! nat a \<le> b)) \<and>
             ((\<forall>v \<in> set (height_map s). v \<le> h) \<longrightarrow> consistent s)"
proof -
  define hm where "hm = (case arg of Profile hm \<Rightarrow> hm | Level g \<Rightarrow> replicate (nat w) g)"
  define gl where "gl = (case arg of Profile hm \<Rightarrow> sum_list hm div int (length hm) | Level g \<Rightarrow> g)"
  have len: "length hm = nat w" and pos: "\<forall>v \<in> set hm. 0 \<le> v"
    using assms(3) by (cases arg; auto simp: hm_def)+
  from init_grid_ok[OF assms(1,2) len pos, of gl]
  obtain px where px: "efold (\<lambda>x px. init_column h (if x < int (length hm) then hm ! nat x else gl) x px)
                  (py_range 0 w) (replicate (nat w) (replicate (nat h) False)) = Inr px"
    "rect px w h"
    "\<forall>a b. 0 \<le> a \<and> a < w \<and> 0 \<le> b \<and> b < h \<longrightarrow> solid px a b = (hm ! nat a \<le> b)" by blast
  let ?s = "\<lparr>width = w, height = h, height_map = hm, ground_level = gl,
             terrain_pixels = px, craters = []\<rparr>"
  have pre: "(case arg of
              Profile hm \<Rightarrow>
                if length hm = 0 then Inl ZeroDivisionError
                else Inr (hm, sum_list hm div int (length hm))
            | Level g \<Rightarrow> Inr (replicate (nat w) g, g)) = Inr (hm, gl)"
    using assms(3) by (cases arg) (auto simp: hm_def gl_def)
  have run: "TerrainMap_init w h arg = Inr ?s"
    unfolding TerrainMap_init_def pre using px(1) by simp
  have wf: "well_formed ?s" using px(2) len by (simp add: well_formed_def)
  have cons: "consistent ?s" if "\<forall>v \<in> set hm. v \<le> h"
    unfolding consistent_iff
  proof (intro allI impI)
    fix x assume "0 \<le> x \<and> x < width ?s"
    then have x: "0 \<le> x" "x < w" by simp_all
    then have "hm ! nat x \<in> set hm" using len by (simp add: nth_mem)
    then have t: "0 \<le> hm ! nat x" "hm ! nat x \<le> h" using pos that by auto
    show "column_top (terrain_pixels ?s) (height ?s) x (height_map ?s ! nat x)"
      using t px(3) x by (auto simp: column_top_def list_all_iff)
  qed
  show ?thesis
    by (rule exI[of _ ?s]) (use run wf px(3) cons in \<open>simp add: hm_def\<close>)
qed

section \<open>Evaluation on concrete maps\<close>

lemma init_22: "TerrainMap_init 2 2 (Level 0) = Inr map_22"
  by (simp add: TerrainMap_init_def init_column_def py_range_def set_pixel_def py_get_def
      py_set_def py_index_def map_22_def upto.simps eval_nat_numeral)

lemma init_841: "TerrainMap_init 8 4 (Level 1) = Inr map_841"
  by (simp add: TerrainMap_init_def init_column_def py_range_def set_pixel_def py_get_def
      py_set_def py_index_def map_841_def upto.simps eval_nat_numeral)

lemma init_313: "TerrainMap_init 3 4 (Profile [3, 1, 3]) = Inr map_313"
  by (simp add: TerrainMap_init_def init_column_def py_range_def set_pixel_def py_get_def
      py_set_def py_index_def map_313_def upto.simps eval_nat_numeral)

lemma distance_le_consts:
  "distance a b cx cy \<le> 0 \<longleftrightarrow> (a - cx)\<^sup>2 + (b - cy)\<^sup>2 \<le> 0"
  "distance a b cx cy \<le> 1 \<longleftrightarrow> (a - cx)\<^sup>2 + (b - cy)\<^sup>2 \<le> 1"
  "distance a b cx cy \<le> numeral n \<longleftrightarrow> (a - cx)\<^sup>2 + (b - cy)\<^sup>2 \<le> (numeral n)\<^sup>2"
  "distance a b cx cy \<le> - 1 \<longleftrightarrow> False"
  "distance a b cx cy \<le> - numeral n \<longleftrightarrow> False"
  using distance_le_iff[of a b cx cy 0] distance_le_iff[of a b cx cy 1]
    distance_le_iff[of a b cx cy "numeral n"] distance_le_iff[of a b cx cy "- 1"]
    distance_le_iff[of a b cx cy "- numeral n"]
  by simp_all

lemmas run_defs = distance_le_consts create_crater_def Let_def carve_def py_range_def set_pixel_def py_get_def
  py_set_def py_index_def distance_le_iff update_height_map_def pixel_def is_solid_at_def
  py_int_def get_ground_height_def clamp_x_def upto.simps

text \<open>
  C1, as stated, fails when the centre is not a whole pixel: \<^verbatim>\<open>create_crater\<close> truncates the
  centre first.  On the solid two-by-two grid, \<^verbatim>\<open>create_crater(0.9, 0.9, 1)\<close> carves around
  \<open>(0, 0)\<close>; the in-bounds point \<open>(1, 1)\<close> lies at distance about \<open>0.14\<close> from the centre passed
  in, yet it stays solid.
\<close>

theorem create_crater_fractional_centre_counterexample:
  "ebind (create_crater map_22 (9/10) (9/10) 1 0) (\<lambda>s'. is_solid_at s' 1 1) = Inr True \<and>
   sqrt ((1 - 9/10)\<^sup>2 + (1 - 9/10)\<^sup>2) \<le> (1::real) \<and>
   (0::real) \<le> 9/10 \<and> (9/10::real) < real_of_int (width map_22) \<and>
   (9/10::real) < real_of_int (height map_22) \<and>
   (1::real) < real_of_int (width map_22) \<and> (1::real) < real_of_int (height map_22)"
proof -
  have "ebind (create_crater map_22 (9/10) (9/10) 1 0) (\<lambda>s'. is_solid_at s' 1 1) = Inr True"
    by (simp add: run_defs map_22_def)
  moreover have "sqrt ((1 - 9/10)\<^sup>2 + (1 - 9/10)\<^sup>2) \<le> (1::real)"
    by (simp add: power2_eq_square)
  ultimately show ?thesis by (simp add: map_22_def)
qed

text \<open>
  C5, as stated, fails: a call with radius \<open>0\<close> clears the centre cell, changes the height
  profile and records a crater; a call with radius \<open>-1\<close> still records a crater.
\<close>

theorem create_crater_nonpositive_radius_counterexample:
  "create_crater map_22 0 0 0 0 =
     Inr (map_22\<lparr>height_map := [1, 0], terrain_pixels := [[False, True], [True, True]],
                 craters := [\<lparr>crater_x = 0, crater_y = 0, radius = 0, creation_time = 0\<rparr>]\<rparr>) \<and>
   create_crater map_22 0 0 (- 1) 0 =
     Inr (map_22\<lparr>craters := [\<lparr>crater_x = 0, crater_y = 0, radius = - 1, creation_time = 0\<rparr>]\<rparr>)"
  by (simp add: run_defs map_22_def)

text \<open>
  C7, as stated, fails for a column just outside the bounding box: on \<^verbatim>\<open>TerrainMap(3, 4, [3, 1, 3])\<close>
  the crater \<^verbatim>\<open>create_crater(0, 1, 1)\<close> has the bounding box of columns \<open>-1..1\<close>; column \<open>2\<close>
  is outside it, and its ground height changes from \<open>1\<close> to \<open>2\<close>, because the query looks three
  columns to either side.
\<close>

theorem ground_height_outside_box_counterexample:
  "get_ground_height map_313 2 = Inr 1 \<and>
   ebind (create_crater map_313 0 1 1 0) (\<lambda>s'. get_ground_height s' 2) = Inr 2 \<and>
   py_int 0 + 1 < (2::int)"
  by (simp add: run_defs map_313_def)

text \<open>
  C8, as stated, fails: the scan steps by two rows.  On \<^verbatim>\<open>TerrainMap(3, 4, [3, 1, 3])\<close> the
  rectangle \<open>(x, y, w, h) = (2, 0, 1, 2)\<close> has the solid pixel \<open>(1, 1)\<close> on its left edge inside the
  span \<open>[0, 2)\<close>, and the result is \<^verbatim>\<open>None\<close>.
\<close>

theorem check_wall_collision_counterexample:
  "check_wall_collision map_313 2 0 1 2 = Inr None \<and>
   is_solid_at map_313 (2 - 1) 1 = Inr True \<and> (0::real) \<le> 1 \<and> (1::real) < 0 + 2"
  by (simp add: run_defs map_313_def check_wall_collision_def py_range2_def)

section \<open>Crater creation\<close>

text \<open>
  C4.  After every \<^verbatim>\<open>create_crater\<close> call on a well-formed terrain map the call returns a map
  of the same width and height, whose grid is the old grid with the crater's disc cleared, and
  whose height profile agrees with that grid: for every column \<open>x\<close>, \<open>height_map[x]\<close> is the
  smallest row \<open>y\<close> with \<open>grid[x][y]\<close> solid, or the grid height when the column has no solid
  cell.
\<close>

theorem create_crater_profile_consistent:
  assumes "well_formed s"
  shows "\<exists>s'. create_crater s cx cy r now = Inr s' \<and> well_formed s' \<and>
           width s' = width s \<and> height s' = height s \<and>
           (\<forall>a b. 0 \<le> a \<and> a < width s \<and> 0 \<le> b \<and> b < height s \<longrightarrow>
              solid (terrain_pixels s') a b =
                (solid (terrain_pixels s) a b \<and>
                 \<not> distance a b (py_int cx) (py_int cy) \<le> real_of_int r)) \<and>
           consistent s' \<and>
           (\<forall>x. 0 \<le> x \<and> x < width s \<longrightarrow>
              0 \<le> height_map s' ! nat x \<and> height_map s' ! nat x \<le> height s \<and>
              (\<forall>y. 0 \<le> y \<and> y < height_map s' ! nat x \<longrightarrow> \<not> solid (terrain_pixels s') x y) \<and>
              (height_map s' ! nat x < height s \<longrightarrow>
                 solid (terrain_pixels s') x (height_map s' ! nat x)))"
proof -
  from create_crater_ok[OF assms, of cx cy r now]
  obtain s' where s': "create_crater s cx cy r now = Inr s'" "well_formed s'" "consistent s'"
    "width s' = width s" "height s' = height s"
    "\<forall>a b. 0 \<le> a \<and> a < width s \<and> 0 \<le> b \<and> b < height s \<longrightarrow>
              solid (terrain_pixels s') a b =
                (solid (terrain_pixels s) a b \<and>
                 \<not> distance a b (py_int cx) (py_int cy) \<le> real_of_int r)"
    by blast
  have tops: "\<forall>x. 0 \<le> x \<and> x < width s \<longrightarrow>
              0 \<le> height_map s' ! nat x \<and> height_map s' ! nat x \<le> height s \<and>
              (\<forall>y. 0 \<le> y \<and> y < height_map s' ! nat x \<longrightarrow> \<not> solid (terrain_pixels s') x y) \<and>
              (height_map s' ! nat x < height s \<longrightarrow>
                 solid (terrain_pixels s') x (height_map s' ! nat x))"
  proof (intro allI impI)
    fix x assume x: "0 \<le> x \<and> x < width s"
    then have "column_top (terrain_pixels s') (height s) x (height_map s' ! nat x)"
      using s'(3,4,5) by (simp add: consistent_iff)
    then show "0 \<le> height_map s' ! nat x \<and> height_map s' ! nat x \<le> height s \<and>
              (\<forall>y. 0 \<le> y \<and> y < height_map s' ! nat x \<longrightarrow> \<not> solid (terrain_pixels s') x y) \<and>
              (height_map s' ! nat x < height s \<longrightarrow>
                 solid (terrain_pixels s') x (height_map s' ! nat x))"
      by (auto simp: column_top_def list_all_iff)
  qed
  show ?thesis using s' tops by blast
qed

theorem create_crater_profile_consistent_witness:
  "well_formed map_313 \<and>
   (\<exists>s'. create_crater map_313 0 1 1 0 = Inr s' \<and> well_formed s' \<and> consistent s' \<and>
         width s' = 3 \<and> height s' = 4 \<and> height_map map_313 = [3, 1, 3] \<and>
         height_map s' = [3, 2, 3] \<and>
         terrain_pixels s' = [[False, False, False, True], [False, False, True, True],
                              [False, False, False, True]])"
proof -
  have wf: "well_formed map_313" by (simp add: map_313_def well_formed_def rect_def)
  have ev: "create_crater map_313 0 1 1 0 =
      Inr (map_313\<lparr>height_map := [3, 2, 3],
                   terrain_pixels := [[False, False, False, True], [False, False, True, True],
                                      [False, False, False, True]],
                   craters := [\<lparr>crater_x = 0, crater_y = 1, radius = 1, creation_time = 0\<rparr>]\<rparr>)"
    by (simp add: run_defs map_313_def)
  from create_crater_profile_consistent[OF wf, of 0 1 1 0]
  obtain s' where s': "create_crater map_313 0 1 1 0 = Inr s'" "well_formed s'" "consistent s'"
    by blast
  from s'(1) ev have "s' = map_313\<lparr>height_map := [3, 2, 3],
                   terrain_pixels := [[False, False, False, True], [False, False, True, True],
                                      [False, False, False, True]],
                   craters := [\<lparr>crater_x = 0, crater_y = 1, radius = 1, creation_time = 0\<rparr>]\<rparr>"
    by simp
  then have "width s' = 3" "height s' = 4" "height_map s' = [3, 2, 3]"
    "terrain_pixels s' = [[False, False, False, True], [False, False, True, True],
                              [False, False, False, True]]"
    by (simp_all add: map_313_def)
  moreover have "height_map map_313 = [3, 1, 3]" by (simp add: map_313_def)
  ultimately show ?thesis using wf s' by blast
qed

lemma rect_eqI:
  assumes "rect px w h" "rect px' w h"
    and "\<And>a b. 0 \<le> a \<Longrightarrow> a < w \<Longrightarrow> 0 \<le> b \<Longrightarrow> b < h \<Longrightarrow> solid px' a b = solid px a b"
  shows "px' = px"
proof (rule nth_equalityI)
  show "length px' = length px" using assms(1,2) by (simp add: rect_def)
next
  fix i assume i: "i < length px'"
  then have iw: "int i < w" using assms(2) by (simp add: rect_def)
  have l1: "length (px ! i) = nat h" using rect_col[OF assms(1), of "int i"] iw by simp
  have l2: "length (px' ! i) = nat h" using rect_col[OF assms(2), of "int i"] iw by simp
  show "px' ! i = px ! i"
  proof (rule nth_equalityI)
    show "length (px' ! i) = length (px ! i)" using l1 l2 by simp
  next
    fix j assume "j < length (px' ! i)"
    then have "int j < h" using l2 by simp
    then show "px' ! i ! j = px ! i ! j"
      using assms(3)[of "int i" "int j"] iw by (simp add: solid_def)
  qed
qed

lemma height_map_eqI:
  assumes "consistent s" "consistent s'" "terrain_pixels s' = terrain_pixels s"
    "width s' = width s" "height s' = height s"
    "length (height_map s) = nat (width s)" "length (height_map s') = nat (width s)"
  shows "height_map s' = height_map s"
proof (rule nth_equalityI)
  show "length (height_map s') = length (height_map s)" using assms(6,7) by simp
next
  fix i assume "i < length (height_map s')"
  then have i: "0 \<le> int i" "int i < width s" using assms(7) by auto
  have "\<forall>x. 0 \<le> x \<and> x < width s \<longrightarrow>
          column_top (terrain_pixels s) (height s) x (height_map s ! nat x)"
    using assms(1) by (simp add: consistent_iff)
  from this[rule_format, of "int i"] i
  have 1: "column_top (terrain_pixels s) (height s) (int i) (height_map s ! i)" by simp
  have "\<forall>x. 0 \<le> x \<and> x < width s \<longrightarrow>
          column_top (terrain_pixels s) (height s) x (height_map s' ! nat x)"
    using assms(2-5) by (simp add: consistent_iff)
  from this[rule_format, of "int i"] i
  have 2: "column_top (terrain_pixels s) (height s) (int i) (height_map s' ! i)" by simp
  show "height_map s' ! i = height_map s ! i"
    by (rule column_top_unique[OF 2 1])
qed

lemma distance_zero: "distance a b cx cy \<le> real_of_int 0 \<longleftrightarrow> a = cx \<and> b = cy"
proof -
  have "(a - cx)\<^sup>2 + (b - cy)\<^sup>2 \<le> 0 \<longleftrightarrow> a = cx \<and> b = cy"
    by (simp add: sum_power2_le_zero_iff)
  then show ?thesis using distance_le_iff[of a b cx cy 0] by simp
qed

lemma distance_neg: "r < 0 \<Longrightarrow> \<not> distance a b cx cy \<le> real_of_int r"
  by (simp add: distance_le_iff)

text \<open>
  C5, as amended.  On a well-formed map a call with radius \<open>r \<le> 0\<close> returns without error and
  appends its crater record.  The only cell it can change is the centre cell, cleared when
  \<open>r = 0\<close>; with \<open>r < 0\<close> the grid is unchanged, and so is a height profile that was consistent
  with the grid.
\<close>

theorem create_crater_nonpositive_radius:
  assumes "well_formed s" "r \<le> 0"
  shows "\<exists>s'. create_crater s cx cy r now = Inr s' \<and>
           craters s' = craters s @ [\<lparr>crater_x = py_int cx, crater_y = py_int cy,
                                       radius = r, creation_time = now\<rparr>] \<and>
           (\<forall>a b. 0 \<le> a \<and> a < width s \<and> 0 \<le> b \<and> b < height s \<longrightarrow>
              solid (terrain_pixels s') a b =
                (solid (terrain_pixels s) a b \<and> \<not> (r = 0 \<and> a = py_int cx \<and> b = py_int cy))) \<and>
           (r < 0 \<longrightarrow> terrain_pixels s' = terrain_pixels s) \<and>
           (r < 0 \<and> consistent s \<longrightarrow> height_map s' = height_map s)"
proof -
  from create_crater_ok[OF assms(1), of cx cy r now]
  obtain s' where s': "create_crater s cx cy r now = Inr s'" "well_formed s'" "consistent s'"
    "width s' = width s" "height s' = height s"
    "craters s' = craters s @ [\<lparr>crater_x = py_int cx, crater_y = py_int cy,
                                       radius = r, creation_time = now\<rparr>]"
    "\<forall>a b. 0 \<le> a \<and> a < width s \<and> 0 \<le> b \<and> b < height s \<longrightarrow>
              solid (terrain_pixels s') a b =
                (solid (terrain_pixels s) a b \<and>
                 \<not> distance a b (py_int cx) (py_int cy) \<le> real_of_int r)"
    by blast
  have d: "distance a b (py_int cx) (py_int cy) \<le> real_of_int r
           \<longleftrightarrow> r = 0 \<and> a = py_int cx \<and> b = py_int cy" for a b
  proof (cases "r = 0")
    case True
    then show ?thesis using distance_zero[of a b "py_int cx" "py_int cy"] by simp
  next
    case False
    then show ?thesis using assms(2) distance_neg[of r a b "py_int cx" "py_int cy"] by simp
  qed
  have cells: "\<forall>a b. 0 \<le> a \<and> a < width s \<and> 0 \<le> b \<and> b < height s \<longrightarrow>
              solid (terrain_pixels s') a b =
                (solid (terrain_pixels s) a b \<and> \<not> (r = 0 \<and> a = py_int cx \<and> b = py_int cy))"
    using s'(7) d by simp
  have px: "terrain_pixels s' = terrain_pixels s" if "r < 0"
  proof (rule rect_eqI[of _ "width s" "height s"])
    show "rect (terrain_pixels s) (width s) (height s)" using assms(1) by (simp add: well_formed_def)
    show "rect (terrain_pixels s') (width s) (height s)"
      using s'(2,4,5) by (simp add: well_formed_def)
    show "\<And>a b. 0 \<le> a \<Longrightarrow> a < width s \<Longrightarrow> 0 \<le> b \<Longrightarrow> b < height s \<Longrightarrow>
       solid (terrain_pixels s') a b = solid (terrain_pixels s) a b"
      using cells that by simp
  qed
  have hm: "height_map s' = height_map s" if "r < 0" "consistent s"
    by (rule height_map_eqI[OF that(2) s'(3) px[OF that(1)] s'(4,5)])
       (use assms(1) s'(2,4) in \<open>simp_all add: well_formed_def\<close>)
  show ?thesis using s'(1,6) cells px hm by blast
qed

theorem create_crater_nonpositive_radius_witness:
  "well_formed map_22 \<and> (- 1::int) \<le> 0 \<and>
   (\<exists>s'. create_crater map_22 0 0 (- 1) 5 = Inr s' \<and>
      craters s' = craters map_22 @ [\<lparr>crater_x = py_int 0, crater_y = py_int 0,
                                       radius = - 1, creation_time = 5\<rparr>] \<and>
      (\<forall>a b. 0 \<le> a \<and> a < width map_22 \<and> 0 \<le> b \<and> b < height map_22 \<longrightarrow>
              solid (terrain_pixels s') a b =
                (solid (terrain_pixels map_22) a b \<and>
                 \<not> ((- 1::int) = 0 \<and> a = py_int 0 \<and> b = py_int 0))) \<and>
      ((- 1::int) < 0 \<longrightarrow> terrain_pixels s' = terrain_pixels map_22) \<and>
      ((- 1::int) < 0 \<and> consistent map_22 \<longrightarrow> height_map s' = height_map map_22))"
proof -
  have wf: "well_formed map_22" by (simp add: map_22_def well_formed_def rect_def)
  show ?thesis
    using create_crater_nonpositive_radius[OF wf, of "- 1" 0 0 5] wf by simp
qed

lemma py_int_close: "\<bar>real_of_int (py_int v) - v\<bar> < 1"
  by (simp add: py_int_def) linarith

lemma distance_far:
  assumes "real_of_int r + 2 < sqrt ((real_of_int x - cx)\<^sup>2 + (real_of_int y - cy)\<^sup>2)"
  shows "\<not> distance x y (py_int cx) (py_int cy) \<le> real_of_int r"
proof -
  let ?ix = "real_of_int (py_int cx)" and ?iy = "real_of_int (py_int cy)"
  let ?a = "real_of_int x - ?ix" and ?b = "real_of_int y - ?iy"
  let ?c = "?ix - cx" and ?d = "?iy - cy"
  have tri: "sqrt ((?a + ?c)\<^sup>2 + (?b + ?d)\<^sup>2) \<le> sqrt (?a\<^sup>2 + ?b\<^sup>2) + sqrt (?c\<^sup>2 + ?d\<^sup>2)"
    by (rule real_sqrt_sum_squares_triangle_ineq)
  have "\<bar>?c\<bar> < 1" "\<bar>?d\<bar> < 1" using py_int_close[of cx] py_int_close[of cy] by auto
  then have "?c\<^sup>2 \<le> 1" "?d\<^sup>2 \<le> 1"
    by (simp_all add: abs_square_le_1 less_imp_le)
  then have "sqrt (?c\<^sup>2 + ?d\<^sup>2) \<le> sqrt 4" by (intro real_sqrt_le_mono) linarith
  also have "sqrt 4 = 2" by simp
  finally have small: "sqrt (?c\<^sup>2 + ?d\<^sup>2) \<le> 2" .
  have "distance x y (py_int cx) (py_int cy) = sqrt (?a\<^sup>2 + ?b\<^sup>2)"
    by (simp add: distance_def)
  moreover have "?a + ?c = real_of_int x - cx" "?b + ?d = real_of_int y - cy" by simp_all
  ultimately show ?thesis using tri small assms by simp
qed

text \<open>
  C1, as amended.  On a well-formed map \<^verbatim>\<open>create_crater(cx, cy, r)\<close> returns, and afterwards
  \<^verbatim>\<open>is_solid_at\<close> is false at every in-bounds pixel whose Euclidean distance from the truncated
  centre \<open>(int(cx), int(cy))\<close> is at most \<open>r\<close>; every pixel farther than \<open>r\<close> from the truncated
  centre, in particular every pixel farther than \<open>r + 2\<close> from \<open>(cx, cy)\<close> itself, keeps its
  solidity.  For a whole-pixel centre the two centres coincide.
\<close>

theorem create_crater_clears_disc:
  assumes "well_formed s"
  shows "\<exists>s'. create_crater s cx cy r now = Inr s' \<and>
           (\<forall>x y. 0 \<le> x \<and> x < width s \<and> 0 \<le> y \<and> y < height s \<and>
                  distance x y (py_int cx) (py_int cy) \<le> real_of_int r \<longrightarrow>
                  is_solid_at s' (real_of_int x) (real_of_int y) = Inr False) \<and>
           (\<forall>x y. \<not> distance x y (py_int cx) (py_int cy) \<le> real_of_int r \<longrightarrow>
                  is_solid_at s' (real_of_int x) (real_of_int y) =
                  is_solid_at s (real_of_int x) (real_of_int y)) \<and>
           (\<forall>x y. real_of_int r + 2 < sqrt ((real_of_int x - cx)\<^sup>2 + (real_of_int y - cy)\<^sup>2) \<longrightarrow>
                  is_solid_at s' (real_of_int x) (real_of_int y) =
                  is_solid_at s (real_of_int x) (real_of_int y))"
proof -
  from create_crater_ok[OF assms, of cx cy r now]
  obtain s' where s': "create_crater s cx cy r now = Inr s'" "well_formed s'"
    "width s' = width s" "height s' = height s"
    "\<forall>a b. 0 \<le> a \<and> a < width s \<and> 0 \<le> b \<and> b < height s \<longrightarrow>
              solid (terrain_pixels s') a b =
                (solid (terrain_pixels s) a b \<and>
                 \<not> distance a b (py_int cx) (py_int cy) \<le> real_of_int r)"
    by blast
  have r: "rect (terrain_pixels s) (width s) (height s)"
    and r': "rect (terrain_pixels s') (width s') (height s')"
    using assms s'(2) by (simp_all add: well_formed_def)
  have new: "is_solid_at s' (real_of_int x) (real_of_int y) =
      Inr (0 \<le> x \<and> x < width s \<and> 0 \<le> y \<and> y < height s \<and> solid (terrain_pixels s) x y \<and>
           \<not> distance x y (py_int cx) (py_int cy) \<le> real_of_int r)" for x y
    using is_solid_at_int[OF r', of x y] s'(3,4,5) by auto
  have old: "is_solid_at s (real_of_int x) (real_of_int y) =
      Inr (0 \<le> x \<and> x < width s \<and> 0 \<le> y \<and> y < height s \<and> solid (terrain_pixels s) x y)" for x y
    by (rule is_solid_at_int[OF r])
  have 1: "\<forall>x y. 0 \<le> x \<and> x < width s \<and> 0 \<le> y \<and> y < height s \<and>
                  distance x y (py_int cx) (py_int cy) \<le> real_of_int r \<longrightarrow>
                  is_solid_at s' (real_of_int x) (real_of_int y) = Inr False"
    by (simp add: new)
  have 2: "\<forall>x y. \<not> distance x y (py_int cx) (py_int cy) \<le> real_of_int r \<longrightarrow>
                  is_solid_at s' (real_of_int x) (real_of_int y) =
                  is_solid_at s (real_of_int x) (real_of_int y)"
    by (simp add: new old)
  have 3: "\<forall>x y. real_of_int r + 2 < sqrt ((real_of_int x - cx)\<^sup>2 + (real_of_int y - cy)\<^sup>2) \<longrightarrow>
                  is_solid_at s' (real_of_int x) (real_of_int y) =
                  is_solid_at s (real_of_int x) (real_of_int y)"
    using 2 distance_far by blast
  from s'(1) 1 2 3 show ?thesis by blast
qed

theorem create_crater_clears_disc_witness:
  "well_formed map_22 \<and>
   (\<exists>s'. create_crater map_22 (9/10) (9/10) 1 0 = Inr s' \<and>
      (\<forall>x y. 0 \<le> x \<and> x < width map_22 \<and> 0 \<le> y \<and> y < height map_22 \<and>
             distance x y (py_int (9/10)) (py_int (9/10)) \<le> real_of_int 1 \<longrightarrow>
             is_solid_at s' (real_of_int x) (real_of_int y) = Inr False) \<and>
      (\<forall>x y. \<not> distance x y (py_int (9/10)) (py_int (9/10)) \<le> real_of_int 1 \<longrightarrow>
             is_solid_at s' (real_of_int x) (real_of_int y) =
             is_solid_at map_22 (real_of_int x) (real_of_int y)) \<and>
      (\<forall>x y. real_of_int 1 + 2 < sqrt ((real_of_int x - 9/10)\<^sup>2 + (real_of_int y - 9/10)\<^sup>2) \<longrightarrow>
             is_solid_at s' (real_of_int x) (real_of_int y) =
             is_solid_at map_22 (real_of_int x) (real_of_int y)))"
proof -
  have wf: "well_formed map_22" by (simp add: map_22_def well_formed_def rect_def)
  from create_crater_clears_disc[OF wf, of "9/10" "9/10" 1 0] wf show ?thesis by blast
qed

lemma pixel_total:
  assumes "rect px w h" "0 \<le> x" "x < w" "- h \<le> y" "y < h"
  shows "\<exists>b. pixel px x y = Inr b"
proof -
  have "length (px ! nat x) = nat h" by (rule rect_col[OF assms(1-3)])
  moreover have "length px = nat w" using assms(1) by (simp add: rect_def)
  ultimately show ?thesis using assms(2-5)
    by (simp add: pixel_def py_get_def py_index_def)
qed

lemma first_solid_total:
  assumes "rect px w h" "0 \<le> x" "x < w" "\<forall>y \<in> set ys. - h \<le> y \<and> y < h"
  shows "\<exists>r. first_solid px x ys = Inr r"
  using assms(4)
proof (induction ys)
  case Nil
  then show ?case by simp
next
  case (Cons y ys)
  then obtain b where "pixel px x y = Inr b"
    using pixel_total[OF assms(1-3), of y] by auto
  then show ?case using Cons by (cases b) auto
qed

lemma get_accurate_total:
  assumes "well_formed s" "0 < width s" "- height s \<le> py_int y0"
  shows "\<exists>g. get_accurate_ground_height s x (Some y0) = Inr g"
    and "\<exists>g. get_accurate_ground_height s x None = Inr g"
proof -
  have r: "rect (terrain_pixels s) (width s) (height s)" using assms(1) by (simp add: well_formed_def)
  have h: "0 \<le> height s" using r by (simp add: rect_def)
  have x0: "0 \<le> clamp_x s x" "clamp_x s x < width s" using clamp_x_range[OF assms(2)] by auto
  obtain r1 where "first_solid (terrain_pixels s) (clamp_x s x) (py_range (py_int y0) (height s)) = Inr r1"
    using first_solid_total[OF r x0, of "py_range (py_int y0) (height s)"] assms(3) by auto
  then show "\<exists>g. get_accurate_ground_height s x (Some y0) = Inr g"
    by (cases r1) (simp_all add: get_accurate_ground_height_def)
  obtain r2 where "first_solid (terrain_pixels s) (clamp_x s x) (py_range (py_int 0) (height s)) = Inr r2"
    using first_solid_total[OF r x0, of "py_range (py_int 0) (height s)"] h by (auto simp: py_int_def)
  then show "\<exists>g. get_accurate_ground_height s x None = Inr g"
    by (cases r2) (simp_all add: get_accurate_ground_height_def)
qed

text \<open>
  C10, as stated, fails: the queries raise \<^verbatim>\<open>IndexError\<close> when the start row lies more than
  \<open>height\<close> rows above the grid (\<^verbatim>\<open>get_accurate_ground_height(0, -5)\<close> on a grid of four rows),
  when the constructor was given a profile shorter than the width (\<^verbatim>\<open>TerrainMap(3, 4, [1])\<close>,
  query at \<open>x = 2\<close>), and when the map has no column (\<^verbatim>\<open>TerrainMap(0, 4, 1)\<close>).
\<close>

theorem height_queries_fail_counterexample:
  "get_accurate_ground_height map_313 0 (Some (- 5)) = Inl IndexError \<and>
   ebind (TerrainMap_init 3 4 (Profile [1])) (\<lambda>s. get_ground_height s 2) = Inl IndexError \<and>
   ebind (TerrainMap_init 0 4 (Level 1)) (\<lambda>s. get_ground_height s 0) = Inl IndexError"
  by (simp add: run_defs get_accurate_ground_height_def map_313_def TerrainMap_init_def
      init_column_def eval_nat_numeral)

text \<open>
  C10, as amended.  On a well-formed map with at least one column, for every \<open>x\<close> (also
  \<open>x < 0\<close> and \<open>x \<ge> width\<close>) and every start row that Python can index
  (\<open>int(y_start) \<ge> -height\<close>), \<^verbatim>\<open>get_ground_height\<close> and \<^verbatim>\<open>get_accurate_ground_height\<close> return a
  value; \<open>x\<close> is clamped to a column in range (\<open>0\<close> for negative \<open>x\<close>, \<open>width - 1\<close> for
  \<open>x \<ge> width\<close>) and the result is the one for that column.
\<close>

theorem height_queries_clamp_x:
  assumes "well_formed s" "0 < width s" "- height s \<le> py_int y_start"
  shows "(\<exists>g. get_ground_height s x = Inr g) \<and>
         (\<exists>g. get_accurate_ground_height s x (Some y_start) = Inr g) \<and>
         (\<exists>g. get_accurate_ground_height s x None = Inr g) \<and>
         0 \<le> clamp_x s x \<and> clamp_x s x < width s \<and>
         (x < 0 \<longrightarrow> clamp_x s x = 0) \<and>
         (real_of_int (width s) \<le> x \<longrightarrow> clamp_x s x = width s - 1) \<and>
         get_ground_height s x = get_ground_height s (real_of_int (clamp_x s x)) \<and>
         get_accurate_ground_height s x (Some y_start) =
           get_accurate_ground_height s (real_of_int (clamp_x s x)) (Some y_start) \<and>
         get_accurate_ground_height s x None =
           get_accurate_ground_height s (real_of_int (clamp_x s x)) None"
proof -
  have 1: "\<exists>g. get_ground_height s x = Inr g"
    using get_ground_height_ok[OF assms(1,2), of x] by blast
  have 2: "get_ground_height s x = get_ground_height s (real_of_int (clamp_x s x))"
    by (simp add: get_ground_height_def)
  have 3: "get_accurate_ground_height s x ys =
           get_accurate_ground_height s (real_of_int (clamp_x s x)) ys" for ys
    by (simp add: get_accurate_ground_height_def)
  show ?thesis
    using 1 2 3 get_accurate_total[OF assms, of x] clamp_x_range[OF assms(2), of x]
      clamp_x_low[of x s] clamp_x_high[of s x] assms(2)
    by blast
qed

theorem height_queries_clamp_x_witness:
  "well_formed map_313 \<and> 0 < width map_313 \<and> - height map_313 \<le> py_int 0 \<and>
   get_ground_height map_313 (- 5) = Inr 1 \<and> get_ground_height map_313 0 = Inr 1 \<and>
   get_accurate_ground_height map_313 (- 5) (Some 0) = Inr 3 \<and>
   get_accurate_ground_height map_313 9 (Some 0) = Inr 3 \<and>
   clamp_x map_313 9 = 2 \<and>
   get_accurate_ground_height map_313 9 (Some 0) =
     get_accurate_ground_height map_313 (real_of_int (clamp_x map_313 9)) (Some 0)"
proof -
  have wf: "well_formed map_313" by (simp add: map_313_def well_formed_def rect_def)
  have w: "0 < width map_313" and h: "- height map_313 \<le> py_int 0"
    by (simp_all add: map_313_def py_int_def)
  have ev: "get_ground_height map_313 (- 5) = Inr 1" "get_ground_height map_313 0 = Inr 1"
    "get_accurate_ground_height map_313 (- 5) (Some 0) = Inr 3"
    "get_accurate_ground_height map_313 9 (Some 0) = Inr 3" "clamp_x map_313 9 = 2"
    by (simp_all add: run_defs get_accurate_ground_height_def map_313_def)
  from height_queries_clamp_x[OF wf w h, of 9] wf w h ev show ?thesis by simp
qed

section \<open>Ground height across a crater\<close>

lemma column_top_exists:
  assumes "rect px w h" "0 \<le> x" "x < w"
  shows "\<exists>t. column_top px h x t"
  using first_solid_top[OF assms] by blast

lemma column_top_mono:
  assumes "column_top px h x t" "column_top px' h x t'"
    and "\<And>y. 0 \<le> y \<Longrightarrow> y < h \<Longrightarrow> solid px' x y \<Longrightarrow> solid px x y"
  shows "t \<le> t'"
proof (rule ccontr)
  assume "\<not> t \<le> t'"
  then have lt: "t' < t" by simp
  from assms(1) have a: "t \<le> h" "\<forall>y. 0 \<le> y \<and> y < t \<longrightarrow> \<not> solid px x y"
    by (auto simp: column_top_def list_all_iff)
  from assms(2) have b: "0 \<le> t'" "t' < h \<longrightarrow> solid px' x t'"
    by (auto simp: column_top_def)
  have "solid px' x t'" using b lt a(1) by simp
  then have "solid px x t'" using assms(3)[of t'] b(1) lt a(1) by simp
  then show False using a(2) b(1) lt by blast
qed

lemma column_top_cong:
  assumes "\<And>y. 0 \<le> y \<Longrightarrow> y < h \<Longrightarrow> solid px' x y = solid px x y"
  shows "column_top px' h x t = column_top px h x t"
proof -
  have "0 \<le> t \<and> t \<le> h \<Longrightarrow>
        list_all (\<lambda>y. \<not> solid px' x y) (py_range 0 t) = list_all (\<lambda>y. \<not> solid px x y) (py_range 0 t)"
    using assms by (auto simp: list_all_iff)
  moreover have "0 \<le> t \<and> t < h \<Longrightarrow> solid px' x t = solid px x t" using assms by simp
  ultimately show ?thesis unfolding column_top_def by auto
qed

lemma Min_insert_mono:
  assumes "finite A" "finite B"
    and "\<And>b. b \<in> insert m' B \<Longrightarrow> \<exists>a \<in> insert m A. a \<le> b"
  shows "Min (insert m A) \<le> Min (insert (m'::int) B)"
proof -
  have "Min (insert m' B) \<in> insert m' B" by (rule Min_in) (use assms(2) in auto)
  then obtain a where a: "a \<in> insert m A" "a \<le> Min (insert m' B)" using assms(3) by blast
  have "Min (insert m A) \<le> a" by (rule Min_le) (use assms(1) a(1) in auto)
  with a(2) show ?thesis by linarith
qed

text \<open>
  C7, as amended.  On a well-formed map with at least one column, \<^verbatim>\<open>get_ground_height(x)\<close>
  after \<^verbatim>\<open>create_crater\<close> is never smaller than before, for every column that had a solid cell
  (and for every column when the height profile was consistent with the grid); and it is
  unchanged when the profile was consistent and the column lies more than three columns
  outside the crater's bounding box.
\<close>

theorem ground_height_after_crater:
  assumes "well_formed s" "0 < width s"
  shows "\<exists>s' g g'. create_crater s cx cy r now = Inr s' \<and>
           get_ground_height s x = Inr g \<and> get_ground_height s' x = Inr g' \<and>
           (consistent s \<or> (\<exists>y. 0 \<le> y \<and> y < height s \<and> solid (terrain_pixels s) (clamp_x s x) y)
              \<longrightarrow> g \<le> g') \<and>
           (consistent s \<and> (clamp_x s x + 3 < py_int cx - r \<or> py_int cx + r < clamp_x s x - 3)
              \<longrightarrow> g' = g)"
proof -
  let ?icx = "py_int cx" and ?icy = "py_int cy"
  let ?w = "width s" and ?h = "height s" and ?px = "terrain_pixels s"
  from create_crater_ok[OF assms(1), of cx cy r now]
  obtain s' where s': "create_crater s cx cy r now = Inr s'" "well_formed s'" "consistent s'"
    "width s' = ?w" "height s' = ?h"
    and cells: "\<forall>a b. 0 \<le> a \<and> a < ?w \<and> 0 \<le> b \<and> b < ?h \<longrightarrow>
              solid (terrain_pixels s') a b =
                (solid ?px a b \<and> \<not> distance a b ?icx ?icy \<le> real_of_int r)"
    by blast
  let ?px' = "terrain_pixels s'"
  let ?x0 = "clamp_x s x"
  have cl: "clamp_x s' x = ?x0" using s'(4) by (simp add: clamp_x_def)
  have x0: "0 \<le> ?x0" "?x0 < ?w" using clamp_x_range[OF assms(2)] by auto
  have rect: "rect ?px ?w ?h" using assms(1) by (simp add: well_formed_def)
  let ?m = "height_map s ! nat ?x0" and ?m' = "height_map s' ! nat ?x0"
  let ?W = "window_tops s ?x0" and ?W' = "window_tops s' ?x0"
  have g: "get_ground_height s x = Inr (Min (insert ?m ?W))"
    by (rule get_ground_height_ok[OF assms])
  have g': "get_ground_height s' x = Inr (Min (insert ?m' ?W'))"
    using get_ground_height_ok[OF s'(2), of x] assms(2) s'(4) cl by simp
  have sub: "solid ?px' a b \<Longrightarrow> solid ?px a b" if "0 \<le> a" "a < ?w" "0 \<le> b" "b < ?h" for a b
    using cells that by blast
  have m'top: "column_top ?px' ?h ?x0 ?m'"
    using s'(3,4,5) x0 by (simp add: consistent_iff)
  have mono: "Min (insert ?m ?W) \<le> Min (insert ?m' ?W')"
    if hyp: "consistent s \<or> (\<exists>y. 0 \<le> y \<and> y < ?h \<and> solid ?px ?x0 y)"
  proof (rule Min_insert_mono)
    show "finite ?W" "finite ?W'" by simp_all
  next
    fix b assume "b \<in> insert ?m' ?W'"
    then consider "b = ?m'" | "b \<in> ?W'" by blast
    then show "\<exists>a \<in> insert ?m ?W. a \<le> b"
    proof cases
      case 1
      obtain t where t: "column_top ?px ?h ?x0 t" using column_top_exists[OF rect x0] by blast
      have tm: "t \<le> ?m'"
        by (rule column_top_mono[OF t m'top]) (use sub x0 in blast)
      from hyp show ?thesis
      proof
        assume "consistent s"
        then have "column_top ?px ?h ?x0 ?m" using x0 by (simp add: consistent_iff)
        then have "?m = t" using column_top_unique t by blast
        then show ?thesis using tm 1 by blast
      next
        assume "\<exists>y. 0 \<le> y \<and> y < ?h \<and> solid ?px ?x0 y"
        then obtain y where y: "0 \<le> y" "y < ?h" "solid ?px ?x0 y" by blast
        have "t < ?h"
        proof (rule ccontr)
          assume "\<not> t < ?h"
          then have "t = ?h" using t by (simp add: column_top_def)
          then have "\<not> solid ?px ?x0 y" using t y(1,2) by (auto simp: column_top_def list_all_iff)
          then show False using y(3) by simp
        qed
        then have "t \<in> ?W" unfolding window_tops_def using t x0
          by (auto intro!: exI[of _ 0])
        then show ?thesis using tm 1 by blast
      qed
    next
      case 2
      then obtain dx where dx: "- 3 \<le> dx" "dx \<le> 3" "0 \<le> ?x0 + dx" "?x0 + dx < ?w" "b < ?h"
        "column_top ?px' ?h (?x0 + dx) b"
        unfolding window_tops_def using s'(4,5) by auto
      obtain t where t: "column_top ?px ?h (?x0 + dx) t"
        using column_top_exists[OF rect dx(3,4)] by blast
      have "t \<le> b"
        by (rule column_top_mono[OF t dx(6)]) (use sub dx(3,4) in blast)
      moreover from this dx(5) have "t < ?h" by simp
      then have "t \<in> ?W" unfolding window_tops_def using t dx(1-4) by blast
      ultimately show ?thesis by blast
    qed
  qed
  have same: "Min (insert ?m' ?W') = Min (insert ?m ?W)"
    if cons: "consistent s" and far: "?x0 + 3 < ?icx - r \<or> ?icx + r < ?x0 - 3"
  proof -
    have unch: "solid ?px' (?x0 + dx) b = solid ?px (?x0 + dx) b"
      if "- 3 \<le> dx" "dx \<le> 3" "0 \<le> ?x0 + dx" "?x0 + dx < ?w" "0 \<le> b" "b < ?h" for dx b
    proof -
      have "\<not> distance (?x0 + dx) b ?icx ?icy \<le> real_of_int r"
        using distance_in_box[of "?x0 + dx" b ?icx ?icy r] far that(1,2) by linarith
      then show ?thesis using cells that(3-6) by blast
    qed
    have tops: "column_top ?px' ?h (?x0 + dx) t = column_top ?px ?h (?x0 + dx) t"
      if "- 3 \<le> dx" "dx \<le> 3" "0 \<le> ?x0 + dx" "?x0 + dx < ?w" for dx t
      by (rule column_top_cong) (use unch that in blast)
    have "?W' = ?W" unfolding window_tops_def using tops s'(4,5) by auto
    moreover have "column_top ?px ?h ?x0 ?m'" using tops[of 0 ?m'] m'top x0 by simp
    moreover have "column_top ?px ?h ?x0 ?m" using cons x0 by (simp add: consistent_iff)
    ultimately show ?thesis using column_top_unique by fastforce
  qed
  show ?thesis using s'(1) g g' mono same by blast
qed

theorem ground_height_after_crater_witness:
  "well_formed map_841 \<and> 0 < width map_841 \<and> consistent map_841 \<and>
   py_int 1 + 2 < clamp_x map_841 7 - 3 \<and>
   (\<exists>s' g g'. create_crater map_841 1 1 2 0 = Inr s' \<and>
      get_ground_height map_841 7 = Inr g \<and> get_ground_height s' 7 = Inr g' \<and>
      g \<le> g' \<and> g' = g \<and> g = 1 \<and>
      terrain_pixels s' \<noteq> terrain_pixels map_841) \<and>
   (\<exists>s' g g'. create_crater map_841 1 1 2 0 = Inr s' \<and>
      get_ground_height map_841 0 = Inr g \<and> get_ground_height s' 0 = Inr g' \<and>
      g \<le> g' \<and> g = 1 \<and> g' = 2)"
proof -
  let ?px = "[[False, False, False, True], [False, False, False, False],
              [False, False, False, True], [False, False, True, True],
              [False, True, True, True], [False, True, True, True],
              [False, True, True, True], [False, True, True, True]]"
  let ?s1 = "map_841\<lparr>height_map := [3, 4, 3, 2, 1, 1, 1, 1], terrain_pixels := ?px,
                      craters := [\<lparr>crater_x = 1, crater_y = 1, radius = 2, creation_time = 0\<rparr>]\<rparr>"
  have wf: "well_formed map_841" by (simp add: map_841_def well_formed_def rect_def)
  have w: "0 < width map_841" by (simp add: map_841_def)
  have c: "consistent map_841"
    by (simp add: map_841_def consistent_def column_top_def solid_def py_range_def upto.simps)
  have f: "py_int 1 + 2 < clamp_x map_841 7 - 3" by (simp add: clamp_x_def map_841_def py_int_def)
  have ev: "create_crater map_841 1 1 2 0 = Inr ?s1"
    by (simp add: run_defs map_841_def)
  have g0: "get_ground_height map_841 0 = Inr 1" "get_ground_height map_841 7 = Inr 1"
    by (simp_all add: run_defs map_841_def)
  have g1: "get_ground_height ?s1 0 = Inr 2" "get_ground_height ?s1 7 = Inr 1"
    by (simp_all add: run_defs map_841_def)
  have ne: "terrain_pixels ?s1 \<noteq> terrain_pixels map_841" by (simp add: map_841_def)
  from ground_height_after_crater[OF wf w, of 1 1 2 0 7] ev g0 g1 c f ne
  have far: "\<exists>s' g g'. create_crater map_841 1 1 2 0 = Inr s' \<and>
      get_ground_height map_841 7 = Inr g \<and> get_ground_height s' 7 = Inr g' \<and>
      g \<le> g' \<and> g' = g \<and> g = 1 \<and> terrain_pixels s' \<noteq> terrain_pixels map_841"
    by auto
  from ground_height_after_crater[OF wf w, of 1 1 2 0 0] ev g0 g1 c
  have near: "\<exists>s' g g'. create_crater map_841 1 1 2 0 = Inr s' \<and>
      get_ground_height map_841 0 = Inr g \<and> get_ground_height s' 0 = Inr g' \<and>
      g \<le> g' \<and> g = 1 \<and> g' = 2"
    by auto
  from wf w c f far near show ?thesis by blast
qed

section \<open>Wall collision\<close>

lemma py_range2_sorted: "sorted_wrt (<) (py_range2 a b)"
  by (simp add: py_range2_def sorted_wrt_map sorted_wrt_upt)

lemma py_range2_set: "set (py_range2 a b) = {c. a \<le> c \<and> c < b \<and> even (c - a)}"
proof (rule set_eqI)
  fix c
  show "c \<in> set (py_range2 a b) \<longleftrightarrow> c \<in> {c. a \<le> c \<and> c < b \<and> even (c - a)}"
  proof
    assume "c \<in> set (py_range2 a b)"
    then obtain k where k: "c = a + 2 * int k" "k < nat ((b - a + 1) div 2)"
      by (auto simp: py_range2_def)
    then have "int k < (b - a + 1) div 2" by linarith
    then have "2 * int k < b - a" by linarith
    then show "c \<in> {c. a \<le> c \<and> c < b \<and> even (c - a)}" using k(1) by simp
  next
    assume "c \<in> {c. a \<le> c \<and> c < b \<and> even (c - a)}"
    then have c: "a \<le> c" "c < b" "even (c - a)" by auto
    from c(3) obtain j where j: "c - a = 2 * j" by (rule evenE)
    then have j0: "0 \<le> j" using c(1) by linarith
    have "j < (b - a + 1) div 2" using j c(2) by linarith
    then have "nat j < nat ((b - a + 1) div 2)" using j0 by linarith
    moreover have "c = a + 2 * int (nat j)" using j j0 by simp
    ultimately have "nat j \<in> set [0..<nat ((b - a + 1) div 2)] \<and> c = a + 2 * int (nat j)"
      by simp
    then show "c \<in> set (py_range2 a b)" unfolding py_range2_def set_map by (rule_tac image_eqI[of _ _ "nat j"]) simp_all
  qed
qed

lemma wall_scan_ok:
  assumes "rect (terrain_pixels s) (width s) (height s)" "sorted_wrt (<) ys"
  shows "\<exists>res. wall_scan s xl xr ys = Inr res \<and>
     (res = None \<longleftrightarrow>
        (\<forall>c \<in> set ys. is_solid_at s xl (real_of_int c) \<noteq> Inr True \<and>
                        is_solid_at s xr (real_of_int c) \<noteq> Inr True)) \<and>
     (res = Some Left \<longleftrightarrow>
        (\<exists>c \<in> set ys. is_solid_at s xl (real_of_int c) = Inr True \<and>
           (\<forall>c' \<in> set ys. c' < c \<longrightarrow> is_solid_at s xl (real_of_int c') \<noteq> Inr True \<and>
                                       is_solid_at s xr (real_of_int c') \<noteq> Inr True))) \<and>
     (res = Some Right \<longleftrightarrow>
        (\<exists>c \<in> set ys. is_solid_at s xl (real_of_int c) \<noteq> Inr True \<and>
                        is_solid_at s xr (real_of_int c) = Inr True \<and>
           (\<forall>c' \<in> set ys. c' < c \<longrightarrow> is_solid_at s xl (real_of_int c') \<noteq> Inr True \<and>
                                       is_solid_at s xr (real_of_int c') \<noteq> Inr True)))"
  using assms(2)
proof (induction ys)
  case Nil
  then show ?case by simp
next
  case (Cons c ys)
  define L where "L = (\<lambda>c. is_solid_at s xl (real_of_int c) = Inr True)"
  define R where "R = (\<lambda>c. is_solid_at s xr (real_of_int c) = Inr True)"
  from Cons.prems have srt: "sorted_wrt (<) ys" and gt: "\<forall>c' \<in> set ys. c < c'" by auto
  obtain bl where bl: "is_solid_at s xl (real_of_int c) = Inr bl"
    using is_solid_at_ok[OF assms(1)] by blast
  obtain br where br: "is_solid_at s xr (real_of_int c) = Inr br"
    using is_solid_at_ok[OF assms(1)] by blast
  have Lc: "L c = bl" and Rc: "R c = br" using bl br by (simp_all add: L_def R_def)
  from Cons.IH[OF srt] obtain res where res: "wall_scan s xl xr ys = Inr res"
    "res = None \<longleftrightarrow> (\<forall>c \<in> set ys. \<not> L c \<and> \<not> R c)"
    "res = Some Left \<longleftrightarrow> (\<exists>c \<in> set ys. L c \<and> (\<forall>c' \<in> set ys. c' < c \<longrightarrow> \<not> L c' \<and> \<not> R c'))"
    "res = Some Right \<longleftrightarrow> (\<exists>c \<in> set ys. \<not> L c \<and> R c \<and> (\<forall>c' \<in> set ys. c' < c \<longrightarrow> \<not> L c' \<and> \<not> R c'))"
    unfolding L_def R_def by blast
  have goal: "\<exists>res'. wall_scan s xl xr (c # ys) = Inr res' \<and>
     (res' = None \<longleftrightarrow> (\<forall>d \<in> set (c # ys). \<not> L d \<and> \<not> R d)) \<and>
     (res' = Some Left \<longleftrightarrow>
        (\<exists>d \<in> set (c # ys). L d \<and> (\<forall>c' \<in> set (c # ys). c' < d \<longrightarrow> \<not> L c' \<and> \<not> R c'))) \<and>
     (res' = Some Right \<longleftrightarrow>
        (\<exists>d \<in> set (c # ys). \<not> L d \<and> R d \<and> (\<forall>c' \<in> set (c # ys). c' < d \<longrightarrow> \<not> L c' \<and> \<not> R c')))"
  proof (cases bl)
    case True
    then have run: "wall_scan s xl xr (c # ys) = Inr (Some Left)" using bl by simp
    have 1: "\<not> (\<forall>d \<in> set (c # ys). \<not> L d \<and> \<not> R d)" using True Lc by simp
    have 2: "\<exists>d \<in> set (c # ys). L d \<and> (\<forall>c' \<in> set (c # ys). c' < d \<longrightarrow> \<not> L c' \<and> \<not> R c')"
      using True Lc gt by (intro bexI[of _ c]) auto
    have 3: "\<not> (\<exists>d \<in> set (c # ys). \<not> L d \<and> R d \<and> (\<forall>c' \<in> set (c # ys). c' < d \<longrightarrow> \<not> L c' \<and> \<not> R c'))"
      using True Lc gt by auto
    show ?thesis using run 1 2 3 by simp
  next
    case False
    note nl = False
    show ?thesis
    proof (cases br)
      case True
      then have run: "wall_scan s xl xr (c # ys) = Inr (Some Right)" using bl br nl by simp
      have 1: "\<not> (\<forall>d \<in> set (c # ys). \<not> L d \<and> \<not> R d)" using True Rc by simp
      have 2: "\<not> (\<exists>d \<in> set (c # ys). L d \<and> (\<forall>c' \<in> set (c # ys). c' < d \<longrightarrow> \<not> L c' \<and> \<not> R c'))"
        using True Rc nl Lc gt by auto
      have 3: "\<exists>d \<in> set (c # ys). \<not> L d \<and> R d \<and> (\<forall>c' \<in> set (c # ys). c' < d \<longrightarrow> \<not> L c' \<and> \<not> R c')"
        using True Rc nl Lc gt by (intro bexI[of _ c]) auto
      show ?thesis using run 1 2 3 by simp
    next
      case False
      then have run: "wall_scan s xl xr (c # ys) = Inr res" using bl br nl res(1) by simp
      have nc: "\<not> L c" "\<not> R c" using nl False Lc Rc by simp_all
      have 1: "(\<forall>d \<in> set (c # ys). \<not> L d \<and> \<not> R d) \<longleftrightarrow> (\<forall>c \<in> set ys. \<not> L c \<and> \<not> R c)"
        using nc by simp
      have 2: "(\<exists>d \<in> set (c # ys). L d \<and> (\<forall>c' \<in> set (c # ys). c' < d \<longrightarrow> \<not> L c' \<and> \<not> R c'))
            \<longleftrightarrow> (\<exists>c \<in> set ys. L c \<and> (\<forall>c' \<in> set ys. c' < c \<longrightarrow> \<not> L c' \<and> \<not> R c'))"
        using nc by auto
      have 3: "(\<exists>d \<in> set (c # ys). \<not> L d \<and> R d \<and> (\<forall>c' \<in> set (c # ys). c' < d \<longrightarrow> \<not> L c' \<and> \<not> R c'))
            \<longleftrightarrow> (\<exists>c \<in> set ys. \<not> L c \<and> R c \<and> (\<forall>c' \<in> set ys. c' < c \<longrightarrow> \<not> L c' \<and> \<not> R c'))"
        using nc by auto
      show ?thesis using run res(2,3,4) 1 2 3 by simp
    qed
  qed
  then show ?case unfolding L_def R_def by simp
qed

text \<open>
  C8, as amended.  On a well-formed map \<^verbatim>\<open>check_wall_collision(x, y, w, h)\<close> returns without
  error.  It samples every second row \<open>int(y), int(y) + 2, \<dots>\<close> below \<open>int(y + h)\<close>, from the
  top.  The result is \<^verbatim>\<open>None\<close> exactly when no sampled row is solid at column \<open>x - 1\<close> or at
  column \<open>x + w\<close>; it is \<^verbatim>\<open>'left'\<close> exactly when the first sampled row with a solid edge pixel
  is solid on the left, and \<^verbatim>\<open>'right'\<close> exactly when that row is solid on the right only.
\<close>

theorem check_wall_collision_sampled:
  assumes "well_formed s"
  shows "\<exists>res. check_wall_collision s x y w h = Inr res \<and>
     (res = None \<longleftrightarrow>
        (\<forall>c. py_int y \<le> c \<and> c < py_int (y + h) \<and> even (c - py_int y) \<longrightarrow>
             is_solid_at s (x - 1) (real_of_int c) \<noteq> Inr True \<and>
             is_solid_at s (x + w) (real_of_int c) \<noteq> Inr True)) \<and>
     (res = Some Left \<longleftrightarrow>
        (\<exists>c. py_int y \<le> c \<and> c < py_int (y + h) \<and> even (c - py_int y) \<and>
             is_solid_at s (x - 1) (real_of_int c) = Inr True \<and>
           (\<forall>c'. py_int y \<le> c' \<and> c' < c \<and> even (c' - py_int y) \<longrightarrow>
                is_solid_at s (x - 1) (real_of_int c') \<noteq> Inr True \<and>
                is_solid_at s (x + w) (real_of_int c') \<noteq> Inr True))) \<and>
     (res = Some Right \<longleftrightarrow>
        (\<exists>c. py_int y \<le> c \<and> c < py_int (y + h) \<and> even (c - py_int y) \<and>
             is_solid_at s (x - 1) (real_of_int c) \<noteq> Inr True \<and>
             is_solid_at s (x + w) (real_of_int c) = Inr True \<and>
           (\<forall>c'. py_int y \<le> c' \<and> c' < c \<and> even (c' - py_int y) \<longrightarrow>
                is_solid_at s (x - 1) (real_of_int c') \<noteq> Inr True \<and>
                is_solid_at s (x + w) (real_of_int c') \<noteq> Inr True)))"
proof -
  let ?ys = "py_range2 (py_int y) (py_int (y + h))"
  define L where "L = (\<lambda>c. is_solid_at s (x - 1) (real_of_int c) = Inr True)"
  define R where "R = (\<lambda>c. is_solid_at s (x + w) (real_of_int c) = Inr True)"
  define S where "S = (\<lambda>c. py_int y \<le> c \<and> c < py_int (y + h) \<and> even (c - py_int y))"
  have r: "rect (terrain_pixels s) (width s) (height s)" using assms by (simp add: well_formed_def)
  have mem: "c \<in> set ?ys \<longleftrightarrow> S c" for c by (simp add: py_range2_set S_def)
  from wall_scan_ok[OF r py_range2_sorted, of "x - 1" "x + w" "py_int y" "py_int (y + h)"]
  obtain res where res: "wall_scan s (x - 1) (x + w) ?ys = Inr res"
    "res = None \<longleftrightarrow> (\<forall>c \<in> set ?ys. \<not> L c \<and> \<not> R c)"
    "res = Some Left \<longleftrightarrow> (\<exists>c \<in> set ?ys. L c \<and> (\<forall>c' \<in> set ?ys. c' < c \<longrightarrow> \<not> L c' \<and> \<not> R c'))"
    "res = Some Right \<longleftrightarrow> (\<exists>c \<in> set ?ys. \<not> L c \<and> R c \<and> (\<forall>c' \<in> set ?ys. c' < c \<longrightarrow> \<not> L c' \<and> \<not> R c'))"
    unfolding L_def R_def by blast
  have 1: "res = None \<longleftrightarrow> (\<forall>c. S c \<longrightarrow> \<not> L c \<and> \<not> R c)" using res(2) mem by blast
  have lower: "(\<forall>c' \<in> set ?ys. c' < c \<longrightarrow> \<not> L c' \<and> \<not> R c') \<longleftrightarrow>
        (\<forall>c'. py_int y \<le> c' \<and> c' < c \<and> even (c' - py_int y) \<longrightarrow> \<not> L c' \<and> \<not> R c')" if "S c" for c
    using that mem unfolding S_def by (metis (no_types, lifting) less_trans)
  have 2: "res = Some Left \<longleftrightarrow> (\<exists>c. S c \<and> L c \<and>
        (\<forall>c'. py_int y \<le> c' \<and> c' < c \<and> even (c' - py_int y) \<longrightarrow> \<not> L c' \<and> \<not> R c'))"
    using res(3) mem lower by blast
  have 3: "res = Some Right \<longleftrightarrow> (\<exists>c. S c \<and> \<not> L c \<and> R c \<and>
        (\<forall>c'. py_int y \<le> c' \<and> c' < c \<and> even (c' - py_int y) \<longrightarrow> \<not> L c' \<and> \<not> R c'))"
    using res(4) mem lower by blast
  have "check_wall_collision s x y w h = Inr res" using res(1) by (simp add: check_wall_collision_def)
  then show ?thesis using 1 2 3 unfolding L_def R_def S_def by (intro exI[of _ res]) simp
qed

theorem check_wall_collision_sampled_witness:
  "well_formed map_313 \<and> check_wall_collision map_313 2 0 1 2 = Inr None \<and>
   py_int 0 \<le> (0::int) \<and> (0::int) < py_int (0 + 2) \<and> even ((0::int) - py_int 0) \<and>
   is_solid_at map_313 (2 - 1) (real_of_int 0) \<noteq> Inr True \<and>
   is_solid_at map_313 (2 + 1) (real_of_int 0) \<noteq> Inr True"
proof -
  have wf: "well_formed map_313" by (simp add: map_313_def well_formed_def rect_def)
  have ev: "check_wall_collision map_313 2 0 1 2 = Inr None"
    by (simp add: run_defs map_313_def check_wall_collision_def py_range2_def)
  have rows: "py_int 0 \<le> (0::int) \<and> (0::int) < py_int (0 + 2) \<and> even ((0::int) - py_int 0)"
    by (simp add: py_int_def)
  from check_wall_collision_sampled[OF wf, of 2 0 1 2] ev wf rows show ?thesis by auto
qed

section \<open>Merging and the crater-list cap\<close>

lemma crater_distance_sym: "crater_distance a b = crater_distance b a"
  by (simp add: crater_distance_def power2_commute)

lemma overlaps_sym: "overlaps a b = overlaps b a"
  by (simp add: overlaps_def crater_distance_sym add.commute)

lemma crater_distance_nonneg: "0 \<le> crater_distance a b"
  by (simp add: crater_distance_def)

lemma overlaps_total_area:
  assumes "overlaps a b"
  shows "(radius a)\<^sup>2 + (radius b)\<^sup>2 \<noteq> 0"
proof
  assume "(radius a)\<^sup>2 + (radius b)\<^sup>2 = 0"
  then have "radius a = 0 \<and> radius b = 0" by (simp add: sum_power2_eq_zero_iff)
  then show False using assms crater_distance_nonneg[of a b] by (simp add: overlaps_def)
qed

lemma merge_pair_ok: "overlaps a b \<Longrightarrow> \<exists>n. merge_pair a b = Inr n"
  using overlaps_total_area[of a b] by (simp add: merge_pair_def Let_def)

lemma merge_into_ok:
  "\<exists>r. merge_into c ms = Inr r \<and>
     (case r of None \<Rightarrow> \<forall>m \<in> set ms. \<not> overlaps c m
              | Some ms' \<Rightarrow> length ms' = length ms \<and> (\<exists>m \<in> set ms. overlaps c m))"
proof (induction ms)
  case Nil
  then show ?case by simp
next
  case (Cons m ms)
  show ?case
  proof (cases "overlaps c m")
    case True
    then obtain n where "merge_pair c m = Inr n" using merge_pair_ok by blast
    then show ?thesis using True by simp
  next
    case False
    from Cons obtain r where r: "merge_into c ms = Inr r"
      "(case r of None \<Rightarrow> \<forall>m \<in> set ms. \<not> overlaps c m
              | Some ms' \<Rightarrow> length ms' = length ms \<and> (\<exists>m \<in> set ms. overlaps c m))" by blast
    then show ?thesis using False by (cases r) auto
  qed
qed

lemma merge_step_ok:
  "\<exists>ms'. merge_step c ms = Inr ms' \<and> length ms' \<le> length ms + 1"
proof -
  from merge_into_ok[of c ms] obtain r where r: "merge_into c ms = Inr r"
      "(case r of None \<Rightarrow> \<forall>m \<in> set ms. \<not> overlaps c m
              | Some ms' \<Rightarrow> length ms' = length ms \<and> (\<exists>m \<in> set ms. overlaps c m))" by blast
  then show ?thesis by (cases r) (auto simp: merge_step_def)
qed

lemma merge_fold_ok:
  "\<exists>ms'. efold merge_step cs ms = Inr ms' \<and> length ms' \<le> length ms + length cs"
proof (induction cs arbitrary: ms)
  case Nil
  then show ?case by simp
next
  case (Cons c cs)
  obtain m1 where m1: "merge_step c ms = Inr m1" "length m1 \<le> length ms + 1"
    using merge_step_ok by blast
  obtain m2 where m2: "efold merge_step cs m1 = Inr m2" "length m2 \<le> length m1 + length cs"
    using Cons[of m1] by blast
  from m1 m2 show ?case by simp
qed

lemma merge_overlapping_craters_ok:
  "\<exists>s'. merge_overlapping_craters s = Inr s' \<and> length (craters s') \<le> 50 \<and>
        length (craters s') \<le> length (craters s) \<and>
        width s' = width s \<and> height s' = height s \<and> terrain_pixels s' = terrain_pixels s \<and>
        height_map s' = height_map s"
proof (cases "length (craters s) < 2")
  case True
  then show ?thesis by (simp add: merge_overlapping_craters_def)
next
  case False
  obtain ms where ms: "efold merge_step (sort_key creation_time (craters s)) [] = Inr ms"
    "length ms \<le> length (sort_key creation_time (craters s))"
    using merge_fold_ok[of "sort_key creation_time (craters s)" "[]"] by auto
  then show ?thesis using False by (simp add: merge_overlapping_craters_def)
qed

lemma merge_preserves_wf:
  "well_formed s \<Longrightarrow> merge_overlapping_craters s = Inr s' \<Longrightarrow> well_formed s'"
  using merge_overlapping_craters_ok[of s] by (auto simp: well_formed_def)

lemma run_creates:
  assumes "well_formed s"
  shows "\<exists>s'. run_ops s (replicate n (CreateCrater cx cy r now)) = Inr s' \<and> well_formed s' \<and>
           length (craters s') = length (craters s) + n"
  using assms
proof (induction n arbitrary: s)
  case 0
  then show ?case by simp
next
  case (Suc n)
  from create_crater_ok[OF Suc.prems, of cx cy r now]
  obtain s1 where s1: "create_crater s cx cy r now = Inr s1" "well_formed s1"
    "length (craters s1) = length (craters s) + 1" by auto
  from Suc.IH[OF s1(2)] obtain s' where
    "run_ops s1 (replicate n (CreateCrater cx cy r now)) = Inr s'" "well_formed s'"
    "length (craters s') = length (craters s1) + n" by blast
  then show ?case using s1 by simp
qed

lemma run_ops_ok:
  assumes "well_formed s"
  shows "\<exists>s'. run_ops s ops = Inr s' \<and> well_formed s'"
  using assms
proof (induction ops arbitrary: s)
  case Nil
  then show ?case by simp
next
  case (Cons operation ops)
  have "\<exists>s1. apply_op s operation = Inr s1 \<and> well_formed s1"
  proof (cases operation)
    case (CreateCrater cx cy r now)
    then show ?thesis using create_crater_ok[OF Cons.prems, of cx cy r now] by auto
  next
    case MergeCraters
    then show ?thesis
      using merge_overlapping_craters_ok[of s] merge_preserves_wf[OF Cons.prems] by auto
  qed
  then obtain s1 where s1: "apply_op s operation = Inr s1" "well_formed s1" by blast
  from Cons.IH[OF s1(2)] s1(1) show ?case by simp
qed

lemma run_ops_append:
  "run_ops s (xs @ ys) = ebind (run_ops s xs) (\<lambda>s'. run_ops s' ys)"
proof (induction xs arbitrary: s)
  case Nil
  then show ?case by simp
next
  case (Cons a xs)
  then show ?case by (cases "apply_op s a") simp_all
qed

text \<open>
  C3, as stated, fails: \<^verbatim>\<open>create_crater\<close> appends without a cap.  Fifty-one calls on the
  two-by-two map leave fifty-one crater records.
\<close>

theorem crater_list_exceeds_cap_counterexample:
  "ebind (run_ops map_22 (replicate 51 (CreateCrater 0 0 1 0))) (\<lambda>s'. Inr (length (craters s')))
     = Inr 51"
proof -
  have wf: "well_formed map_22" by (simp add: map_22_def well_formed_def rect_def)
  from run_creates[OF wf, of 51 0 0 1 0] show ?thesis by (auto simp: map_22_def)
qed

text \<open>
  C3, as amended.  After any sequence of \<^verbatim>\<open>create_crater\<close> and \<^verbatim>\<open>merge_overlapping_craters\<close>
  calls on a well-formed map that ends with a \<^verbatim>\<open>merge_overlapping_craters\<close> call, the calls
  have all returned and the crater-record list holds at most 50 entries.
\<close>

theorem crater_list_capped_after_merge:
  assumes "well_formed s"
  shows "\<exists>s'. run_ops s (ops @ [MergeCraters]) = Inr s' \<and> length (craters s') \<le> 50"
proof -
  from run_ops_ok[OF assms, of ops] obtain s1 where s1: "run_ops s ops = Inr s1" by blast
  from merge_overlapping_craters_ok[of s1] obtain s' where
    "merge_overlapping_craters s1 = Inr s'" "length (craters s') \<le> 50" by blast
  then show ?thesis using s1 by (simp add: run_ops_append)
qed

section \<open>Merging two craters\<close>

lemma overlaps_int:
  "overlaps a b \<longleftrightarrow>
     0 < radius a + radius b \<and>
     25 * ((crater_x a - crater_x b)\<^sup>2 + (crater_y a - crater_y b)\<^sup>2) < 16 * (radius a + radius b)\<^sup>2"
proof -
  let ?n = "(crater_x a - crater_x b)\<^sup>2 + (crater_y a - crater_y b)\<^sup>2"
  let ?s = "radius a + radius b"
  let ?c = "real_of_int ?s * (8 / 10)"
  show ?thesis
  proof (cases "0 < ?s")
    case False
    then have "?c \<le> 0" by (simp add: mult_le_0_iff)
    then have "\<not> overlaps a b" using crater_distance_nonneg[of a b] by (simp add: overlaps_def)
    then show ?thesis using False by simp
  next
    case True
    then have c0: "0 \<le> ?c" by simp
    have "sqrt (real_of_int ?n) < ?c \<longleftrightarrow> sqrt (real_of_int ?n) < sqrt (?c\<^sup>2)"
      using c0 by simp
    also have "\<dots> \<longleftrightarrow> real_of_int ?n < ?c\<^sup>2" by (rule real_sqrt_less_iff)
    also have "?c\<^sup>2 = real_of_int (16 * ?s\<^sup>2) / 25"
      by (simp add: power2_eq_square algebra_simps)
    also have "real_of_int ?n < real_of_int (16 * ?s\<^sup>2) / 25
               \<longleftrightarrow> real_of_int (25 * ?n) < real_of_int (16 * ?s\<^sup>2)"
      by (simp add: mult.commute)
    also have "\<dots> \<longleftrightarrow> 25 * ?n < 16 * ?s\<^sup>2" by (rule of_int_less_iff)
    finally show ?thesis using True by (simp add: overlaps_def crater_distance_def)
  qed
qed

lemma crater_distance_same_row:
  "crater_y a = crater_y b \<Longrightarrow> crater_distance a b = real_of_int \<bar>crater_x a - crater_x b\<bar>"
  by (simp add: crater_distance_def)

lemma sort_two:
  "sort_key creation_time [a, b] = (if creation_time a \<le> creation_time b then [a, b] else [b, a])"
  by simp

lemma merge_two:
  "\<exists>ms. efold merge_step [c1, c2] [] = Inr ms \<and>
        (overlaps c2 c1 \<longrightarrow> length ms = 1) \<and> (\<not> overlaps c2 c1 \<longrightarrow> ms = [c1, c2])"
proof (cases "overlaps c2 c1")
  case True
  then obtain n where "merge_pair c2 c1 = Inr n" using merge_pair_ok by blast
  then show ?thesis using True by (simp add: merge_step_def)
next
  case False
  then show ?thesis by (simp add: merge_step_def)
qed

text \<open>
  C6.  When the crater list holds exactly two records, \<^verbatim>\<open>merge_overlapping_craters\<close> returns; if
  the distance between the centres is less than \<open>0.8 \<times> (r1 + r2)\<close> one record is left, and if
  it is greater (or equal) the two records are left as they are, in creation-time order.
\<close>

theorem merge_two_craters:
  assumes "craters s = [a, b]"
  shows "\<exists>s'. merge_overlapping_craters s = Inr s' \<and>
           (crater_distance a b < real_of_int (radius a + radius b) * (8 / 10)
              \<longrightarrow> length (craters s') = 1) \<and>
           (real_of_int (radius a + radius b) * (8 / 10) \<le> crater_distance a b
              \<longrightarrow> length (craters s') = 2 \<and>
                  craters s' = (if creation_time a \<le> creation_time b then [a, b] else [b, a]))"
proof -
  have ov: "overlaps a b \<longleftrightarrow> crater_distance a b < real_of_int (radius a + radius b) * (8 / 10)"
    by (simp add: overlaps_def)
  show ?thesis
  proof (cases "creation_time a \<le> creation_time b")
    case True
    from merge_two[of a b] obtain ms where ms: "efold merge_step [a, b] [] = Inr ms"
      "overlaps b a \<longrightarrow> length ms = 1" "\<not> overlaps b a \<longrightarrow> ms = [a, b]" by blast
    have "merge_overlapping_craters s = Inr (s\<lparr>craters := ms\<rparr>)"
      using assms True ms(1) ms(2,3) by (cases "overlaps b a") (auto simp: merge_overlapping_craters_def)
    then show ?thesis using ms(2,3) ov True overlaps_sym[of a b]
      by (intro exI[of _ "s\<lparr>craters := ms\<rparr>"]) auto
  next
    case False
    from merge_two[of b a] obtain ms where ms: "efold merge_step [b, a] [] = Inr ms"
      "overlaps a b \<longrightarrow> length ms = 1" "\<not> overlaps a b \<longrightarrow> ms = [b, a]" by blast
    have "merge_overlapping_craters s = Inr (s\<lparr>craters := ms\<rparr>)"
      using assms False ms(1) ms(2,3) by (cases "overlaps a b") (auto simp: merge_overlapping_craters_def)
    then show ?thesis using ms(2,3) ov False
      by (intro exI[of _ "s\<lparr>craters := ms\<rparr>"]) auto
  qed
qed

theorem merge_two_craters_witness:
  "craters (map_22\<lparr>craters := [\<lparr>crater_x = 300, crater_y = 520, radius = 40, creation_time = 1\<rparr>,
                               \<lparr>crater_x = 330, crater_y = 520, radius = 35, creation_time = 2\<rparr>]\<rparr>)
     = [\<lparr>crater_x = 300, crater_y = 520, radius = 40, creation_time = 1\<rparr>,
        \<lparr>crater_x = 330, crater_y = 520, radius = 35, creation_time = 2\<rparr>] \<and>
   crater_distance \<lparr>crater_x = 300, crater_y = 520, radius = 40, creation_time = 1\<rparr>
                   \<lparr>crater_x = 330, crater_y = 520, radius = 35, creation_time = 2\<rparr>
     < real_of_int (40 + 35) * (8 / 10) \<and>
   (\<exists>s'. merge_overlapping_craters
           (map_22\<lparr>craters := [\<lparr>crater_x = 300, crater_y = 520, radius = 40, creation_time = 1\<rparr>,
                               \<lparr>crater_x = 330, crater_y = 520, radius = 35, creation_time = 2\<rparr>]\<rparr>)
         = Inr s' \<and> length (craters s') = 1)"
proof -
  let ?a = "\<lparr>crater_x = 300, crater_y = 520, radius = 40, creation_time = 1\<rparr>"
  let ?b = "\<lparr>crater_x = 330, crater_y = 520, radius = 35, creation_time = 2\<rparr>"
  have d: "crater_distance ?a ?b < real_of_int (40 + 35) * (8 / 10)"
    by (simp add: crater_distance_same_row)
  from merge_two_craters[of "map_22\<lparr>craters := [?a, ?b]\<rparr>" ?a ?b] d show ?thesis by simp
qed

section \<open>A merge that reaches the cap\<close>

text \<open>Fifty-one craters of radius 1 in a row, ten pixels apart and created in that order: no
  two overlap, so the merge pass keeps them all and the cap drops the oldest.\<close>

lemma merge_into_none:
  "\<forall>m \<in> set ms. \<not> overlaps c m \<Longrightarrow> merge_into c ms = Inr None"
  by (induction ms) simp_all

lemma merge_fold_apart:
  assumes "\<forall>c \<in> set cs. \<forall>m \<in> set (acc @ cs). c \<noteq> m \<longrightarrow> \<not> overlaps c m"
    and "distinct (acc @ cs)"
  shows "efold merge_step cs acc = Inr (acc @ cs)"
  using assms
proof (induction cs arbitrary: acc)
  case Nil
  then show ?case by simp
next
  case (Cons c cs)
  have "\<forall>m \<in> set acc. \<not> overlaps c m" using Cons.prems by auto
  then have step: "merge_step c acc = Inr (acc @ [c])"
    by (simp add: merge_step_def merge_into_none)
  have "efold merge_step cs (acc @ [c]) = Inr ((acc @ [c]) @ cs)"
    by (rule Cons.IH) (use Cons.prems in auto)
  then show ?case using step by simp
qed

lemma run_creates_row:
  assumes "well_formed s"
  shows "\<exists>s'. run_ops s (map (\<lambda>i. CreateCrater (real_of_int (10 * i)) 0 1 (real_of_int i)) js) = Inr s' \<and>
           well_formed s' \<and>
           craters s' = craters s @
             map (\<lambda>i. \<lparr>crater_x = 10 * i, crater_y = 0, radius = 1, creation_time = real_of_int i\<rparr>) js"
  using assms
proof (induction js arbitrary: s)
  case Nil
  then show ?case by simp
next
  case (Cons j js)
  from create_crater_ok[OF Cons.prems, of "real_of_int (10 * j)" 0 1 "real_of_int j"]
  obtain s1 where s1: "create_crater s (real_of_int (10 * j)) 0 1 (real_of_int j) = Inr s1"
    "well_formed s1"
    "craters s1 = craters s @ [\<lparr>crater_x = py_int (real_of_int (10 * j)), crater_y = py_int 0,
                                 radius = 1, creation_time = real_of_int j\<rparr>]" by blast
  have c1: "craters s1 = craters s @ [\<lparr>crater_x = 10 * j, crater_y = 0,
                                 radius = 1, creation_time = real_of_int j\<rparr>]"
    using s1(3) by (simp only: py_int_of_int) (simp add: py_int_def)
  from Cons.IH[OF s1(2)] obtain s' where
    "run_ops s1 (map (\<lambda>i. CreateCrater (real_of_int (10 * i)) 0 1 (real_of_int i)) js) = Inr s'"
    "well_formed s'"
    "craters s' = craters s1 @
       map (\<lambda>i. \<lparr>crater_x = 10 * i, crater_y = 0, radius = 1, creation_time = real_of_int i\<rparr>) js"
    by blast
  then show ?case using s1(1) c1 by simp
qed

lemma row_apart:
  "i \<noteq> j \<Longrightarrow>
   \<not> overlaps \<lparr>crater_x = 10 * i, crater_y = 0, radius = 1, creation_time = real_of_int i\<rparr>
              \<lparr>crater_x = 10 * j, crater_y = 0, radius = 1, creation_time = real_of_int j\<rparr>"
proof -
  assume "i \<noteq> j"
  then have "1 \<le> (i - j)\<^sup>2"
    by (metis diff_eq_diff_eq eq_iff_diff_eq_0 int_one_le_iff_zero_less zero_less_power2)
  then have "64 \<le> 25 * (10 * i - 10 * j)\<^sup>2"
    by (simp add: power2_eq_square algebra_simps)
  then show ?thesis by (simp add: overlaps_int)
qed

lemma row_merge:
  assumes "craters s = map (\<lambda>i. \<lparr>crater_x = 10 * i, crater_y = 0, radius = 1,
                                    creation_time = real_of_int i\<rparr>) [0..50]"
  shows "merge_overlapping_craters s =
           Inr (s\<lparr>craters := map (\<lambda>i. \<lparr>crater_x = 10 * i, crater_y = 0, radius = 1,
                                          creation_time = real_of_int i\<rparr>) [1..50]\<rparr>)"
proof -
  let ?mk = "\<lambda>i. \<lparr>crater_x = 10 * i, crater_y = 0, radius = 1, creation_time = real_of_int i\<rparr>"
  let ?cs = "map ?mk [0..50]"
  have len: "length ?cs = 51" by simp
  have inj: "inj ?mk" by (rule injI) simp
  have dist: "distinct ?cs" using inj by (simp add: distinct_map inj_on_def)
  have "sorted (map creation_time ?cs)"
    by (simp add: comp_def sorted_map sorted_wrt_mono_rel[OF _ sorted_upto])
  then have srt: "sort_key creation_time ?cs = ?cs" by (rule sort_key_id_if_sorted)
  have apart: "\<forall>c \<in> set ?cs. \<forall>m \<in> set ([] @ ?cs). c \<noteq> m \<longrightarrow> \<not> overlaps c m"
    using row_apart by auto
  have fold: "efold merge_step ?cs [] = Inr ([] @ ?cs)"
    by (rule merge_fold_apart[OF apart]) (use dist in simp)
  have "[0..50] = 0 # [1..50]" by (simp add: upto_rec1)
  then have "drop 1 ?cs = map ?mk [1..(50::int)]" by simp
  then show ?thesis
    using assms srt fold len by (simp add: merge_overlapping_craters_def)
qed

theorem crater_list_capped_after_merge_witness:
  "well_formed map_22 \<and>
   (\<exists>s'. run_ops map_22
            (map (\<lambda>i. CreateCrater (real_of_int (10 * i)) 0 1 (real_of_int i)) [0..50]
             @ [MergeCraters]) = Inr s' \<and>
         length (craters s') \<le> 50) \<and>
   ebind (run_ops map_22 (map (\<lambda>i. CreateCrater (real_of_int (10 * i)) 0 1 (real_of_int i)) [0..50]))
     (\<lambda>s. Inr (length (craters s))) = Inr 51 \<and>
   ebind (run_ops map_22
            (map (\<lambda>i. CreateCrater (real_of_int (10 * i)) 0 1 (real_of_int i)) [0..50]
             @ [MergeCraters]))
     (\<lambda>s. Inr (craters s)) =
     Inr (map (\<lambda>i. \<lparr>crater_x = 10 * i, crater_y = 0, radius = 1, creation_time = real_of_int i\<rparr>)
            [1..50])"
proof -
  let ?ops = "map (\<lambda>i. CreateCrater (real_of_int (10 * i)) 0 1 (real_of_int i)) [0..50]"
  let ?mk = "\<lambda>i. \<lparr>crater_x = 10 * i, crater_y = 0, radius = 1, creation_time = real_of_int i\<rparr>"
  have wf: "well_formed map_22" by (simp add: map_22_def well_formed_def rect_def)
  from run_creates_row[OF wf, of "[0..50]"]
  obtain s1 where s1: "run_ops map_22 ?ops = Inr s1" "craters s1 = craters map_22 @ map ?mk [0..50]"
    by blast
  have c1: "craters s1 = map ?mk [0..50]" using s1(2) by (simp add: map_22_def)
  have before: "ebind (run_ops map_22 ?ops) (\<lambda>s. Inr (length (craters s))) = Inr 51"
    using s1(1) c1 by simp
  have after: "ebind (run_ops map_22 (?ops @ [MergeCraters])) (\<lambda>s. Inr (craters s)) =
     Inr (map ?mk [1..50])"
    using s1(1) row_merge[OF c1] by (simp add: run_ops_append)
  from crater_list_capped_after_merge[OF wf, of ?ops] wf before after
  show ?thesis by blast
qed

section \<open>A second merge pass\<close>

text \<open>
  C2 evaluated on three rocket craters in a row, created at times 1, 2, 3 with centres
  \<open>(0, 0)\<close>, \<open>(100, 0)\<close>, \<open>(56, 0)\<close> and radius \<open>40\<close>.  The first merge joins the third crater to the
  first; the grown record \<open>(28, 0, 60)\<close> now overlaps the untouched \<open>(100, 0, 40)\<close>, so the list
  one call produces still holds an overlapping pair, and a second call merges it.
\<close>

theorem merge_twice_differs:
  "ebind (run_ops map_22 [CreateCrater 0 0 40 1, CreateCrater 100 0 40 2, CreateCrater 56 0 40 3,
                          MergeCraters]) (\<lambda>s. Inr (craters s))
     = Inr [\<lparr>crater_x = 28, crater_y = 0, radius = 60, creation_time = 3\<rparr>,
            \<lparr>crater_x = 100, crater_y = 0, radius = 40, creation_time = 2\<rparr>] \<and>
   ebind (run_ops map_22 [CreateCrater 0 0 40 1, CreateCrater 100 0 40 2, CreateCrater 56 0 40 3,
                          MergeCraters, MergeCraters]) (\<lambda>s. Inr (craters s))
     = Inr [\<lparr>crater_x = 50, crater_y = 0, radius = 80, creation_time = 3\<rparr>] \<and>
   overlaps \<lparr>crater_x = 28, crater_y = 0, radius = 60, creation_time = 3\<rparr>
            \<lparr>crater_x = 100, crater_y = 0, radius = 40, creation_time = 2\<rparr>"
  by (simp add: run_defs map_22_def merge_overlapping_craters_def merge_step_def merge_pair_def
      overlaps_int crater_distance_same_row)

section \<open>The generated height profile\<close>

lemma randint_ok: "a \<le> b \<Longrightarrow> \<exists>v g'. random_randint a b g = Inr (v, g') \<and> a \<le> v \<and> v \<le> b"
proof -
  assume ab: "a \<le> b"
  have "0 < nat (b - a + 1)" using ab by simp
  then have "g 0 mod nat (b - a + 1) < nat (b - a + 1)" by (rule mod_less_divisor)
  then have "int (g 0 mod nat (b - a + 1)) < b - a + 1" by linarith
  then show ?thesis using ab by (simp add: random_randint_def)
qed

lemma major_dune_draws_ok: "\<exists>g'. major_dune_draws x g = Inr g'"
proof -
  obtain v g1 where r: "random_random g = (v, g1)" by (cases "random_random g")
  obtain a g2 where a: "random_randint 50 150 g1 = Inr (a, g2)" using randint_ok[of 50 150 g1] by auto
  obtain b g3 where b: "random_randint 80 120 g2 = Inr (b, g3)" using randint_ok[of 80 120 g2] by auto
  obtain c g4 where c: "random_randint 40 70 g3 = Inr (c, g4)" using randint_ok[of 40 70 g3] by auto
  show ?thesis using r a b c by (simp add: major_dune_draws_def)
qed

lemma py_int_clamped:
  assumes "real_of_int lo \<le> v" "v \<le> real_of_int hi" "0 \<le> lo"
  shows "lo \<le> py_int v \<and> py_int v \<le> hi"
proof -
  have "0 \<le> v" using assms(1,3) by linarith
  then have "py_int v = \<lfloor>v\<rfloor>" by (simp add: py_int_def)
  then show ?thesis using assms(1,2) by (simp add: le_floor_iff floor_le_iff)
qed

lemma height_column_ok:
  "\<exists>v g'. height_column complexity x g = Inr (v, g') \<and> min_height \<le> v \<and> v \<le> max_height"
proof -
  obtain u g1 where r: "random_random g = (u, g1)" by (cases "random_random g")
  obtain g2 where g2: "major_dune_draws x g1 = Inr g2" using major_dune_draws_ok by blast
  have "\<And>t. min_height \<le> py_int (max (real_of_int min_height) (min (real_of_int max_height) t)) \<and>
            py_int (max (real_of_int min_height) (min (real_of_int max_height) t)) \<le> max_height"
    by (rule py_int_clamped) (simp_all add: min_height_def max_height_def SCREEN_HEIGHT_def)
  then show ?thesis using r g2 by (simp add: height_column_def Let_def)
qed

lemma generate_height_map_ok:
  "\<exists>hm g'. generate_height_map w complexity g = Inr (hm, g') \<and> length hm = nat w \<and>
            (\<forall>v \<in> set hm. min_height \<le> v \<and> v \<le> max_height)"
proof -
  let ?f = "\<lambda>x (hmap, g1).
              ebind (height_column complexity x g1) (\<lambda>(v, g2). Inr (hmap @ [v], g2))"
  let ?I = "\<lambda>(p :: int list) (st :: int list \<times> rng). length (fst st) = length p \<and>
              (\<forall>v \<in> set (fst st). min_height \<le> v \<and> v \<le> max_height)"
  have "\<exists>st. efold ?f (py_range 0 w) ([], g) = Inr st \<and> ?I ([] @ py_range 0 w) st"
  proof (rule efold_rule[where I = ?I])
    show "?I [] ([], g)" by simp
  next
    fix p x st
    assume inv: "?I p st" and "x \<in> set (py_range 0 w)"
    obtain hm g1 where st: "st = (hm, g1)" by (cases st)
    obtain v g2 where v: "height_column complexity x g1 = Inr (v, g2)"
      "min_height \<le> v" "v \<le> max_height" using height_column_ok by blast
    have "?f x st = Inr (hm @ [v], g2)" using st v(1) by simp
    moreover have "?I (p @ [x]) (hm @ [v], g2)" using inv st v(2,3) by auto
    ultimately show "\<exists>st'. ?f x st = Inr st' \<and> ?I (p @ [x]) st'" by blast
  qed
  then obtain st where st: "efold ?f (py_range 0 w) ([], g) = Inr st"
    "length (fst st) = length (py_range 0 w)"
    "\<forall>v \<in> set (fst st). min_height \<le> v \<and> v \<le> max_height" by auto
  have "length (py_range 0 w) = nat w" by (simp add: py_range_def)
  then show ?thesis using st by (cases st) (auto simp: generate_height_map_def)
qed

lemma one_dune_narrow:
  "length em < 200 \<Longrightarrow> one_dune complexity (em, g) = Inl ValueError"
  by (simp add: one_dune_def random_randint_def)

lemma add_sand_dunes_narrow:
  assumes "length hm < 200" "1 \<le> py_int (3 + complexity * 2)"
  shows "add_sand_dunes hm complexity g = Inl ValueError"
proof -
  have "py_range 0 (py_int (3 + complexity * 2)) = 0 # py_range 1 (py_int (3 + complexity * 2))"
    using assms(2) by (simp add: py_range_def upto_rec1)
  then show ?thesis using one_dune_narrow[OF assms(1)] by (simp add: add_sand_dunes_def)
qed

lemma generate_varied_terrain_narrow:
  assumes "w < 200" "1 \<le> py_int (3 + complexity * 2)"
  shows "generate_varied_terrain w complexity g = Inl ValueError"
proof -
  obtain hm g1 where hm: "generate_height_map w complexity g = Inr (hm, g1)" "length hm = nat w"
    using generate_height_map_ok[of w complexity g] by blast
  have "length hm < 200" using hm(2) assms(1) by linarith
  then have "add_sand_dunes hm complexity g1 = Inl ValueError"
    by (rule add_sand_dunes_narrow[OF _ assms(2)])
  then show ?thesis using hm(1) by (simp add: generate_varied_terrain_def)
qed

lemma py_int_le: "v \<le> real_of_int e \<Longrightarrow> py_int v \<le> e"
  by (auto simp: py_int_def ceiling_le_iff floor_le_iff)

lemma py_int_mono:
  assumes "a \<le> b"
  shows "py_int a \<le> py_int b"
proof -
  consider "0 \<le> a" | "a < 0" "0 \<le> b" | "a < 0" "b < 0" by linarith
  then show ?thesis
  proof cases
    case 1
    then show ?thesis using assms by (simp add: py_int_def floor_mono)
  next
    case 2
    have "\<lceil>a\<rceil> \<le> 0" using 2(1) by (simp add: ceiling_le_iff)
    moreover have "0 \<le> \<lfloor>b\<rfloor>" using 2(2) by simp
    moreover have "py_int a = \<lceil>a\<rceil>" "py_int b = \<lfloor>b\<rfloor>" using 2 by (simp_all add: py_int_def)
    ultimately show ?thesis by linarith
  next
    case 3
    then show ?thesis using assms by (simp add: py_int_def ceiling_mono)
  qed
qed

lemma dune_column_ok:
  assumes "0 \<le> x" "x < int (length em)" "0 \<le> dh" "0 < dw"
  shows "\<exists>em'. dune_column c dw dh steep x em = Inr em' \<and> length em' = length em \<and>
           (\<forall>i < length em. em' ! i \<le> em ! i) \<and>
           (x = c \<longrightarrow> em' ! nat c = py_int (real_of_int (em ! nat c) - dh))"
proof -
  define ratio where "ratio = real_of_int \<bar>x - c\<bar> / real_of_int dw"
  define influence where "influence =
     (if (x - c) * steep > 0 then 1 - ratio powr (15 / 10) else 1 - ratio powr (7 / 10))"
  let ?new = "py_int (real_of_int (em ! nat x) - influence * dh)"
  have get: "py_get em x = Inr (em ! nat x)" using assms(1,2) by (simp add: py_get_in)
  have set: "py_set em x v = Inr (em[nat x := v])" for v using assms(1,2) by (simp add: py_set_in)
  have eq: "dune_column c dw dh steep x em =
      (if \<bar>x - c\<bar> < dw then
         if influence > 0 then
           ebind (py_get em x) (\<lambda>e. py_set em x (py_int (real_of_int e - influence * dh)))
         else Inr em
       else Inr em)"
    by (simp add: dune_column_def Let_def ratio_def influence_def)
  show ?thesis
  proof (cases "\<bar>x - c\<bar> < dw \<and> influence > 0")
    case True
    then have run: "dune_column c dw dh steep x em = Inr (em[nat x := ?new])"
      using get set by (simp add: eq)
    have "0 \<le> influence * dh" using True assms(3) by simp
    then have le: "?new \<le> em ! nat x" by (intro py_int_le) linarith
    have mono: "\<forall>i < length em. em[nat x := ?new] ! i \<le> em ! i"
    proof (intro allI impI)
      fix i assume "i < length em"
      then show "em[nat x := ?new] ! i \<le> em ! i"
        using le by (cases "i = nat x") simp_all
    qed
    have ctr: "x = c \<longrightarrow> em[nat x := ?new] ! nat c = py_int (real_of_int (em ! nat c) - dh)"
    proof
      assume xc: "x = c"
      then have "influence = 1" by (simp add: influence_def ratio_def)
      then show "em[nat x := ?new] ! nat c = py_int (real_of_int (em ! nat c) - dh)"
        using xc assms(1,2) by simp
    qed
    show ?thesis using run mono ctr by simp
  next
    case False
    then have run: "dune_column c dw dh steep x em = Inr em"
      by (auto simp: eq)
    have "x \<noteq> c"
    proof
      assume xc: "x = c"
      then have "influence = 1" by (simp add: influence_def ratio_def)
      then show False using False xc assms(4) by simp
    qed
    then show ?thesis using run by simp
  qed
qed

lemma choice_ok: "\<exists>v g'. random_choice [a, b] g = Inr (v, g')"
  by (simp add: random_choice_def)

lemma one_dune_ok:
  assumes "200 \<le> length em" "0 \<le> complexity"
  shows "\<exists>em' g' ctr k. one_dune complexity (em, g) = Inr (em', g') \<and> length em' = length em \<and>
           (\<forall>i < length em. em' ! i \<le> em ! i) \<and>
           100 \<le> ctr \<and> ctr \<le> int (length em) - 100 \<and> 30 \<le> k \<and> k \<le> 60 \<and>
           em' ! nat ctr \<le> py_int (real_of_int (em ! nat ctr) - real_of_int k * complexity)"
proof -
  let ?w = "int (length em)"
  obtain ctr g1 where ctr: "random_randint 100 (?w - 100) g = Inr (ctr, g1)" "100 \<le> ctr" "ctr \<le> ?w - 100"
    using randint_ok[of 100 "?w - 100" g] assms(1) by auto
  obtain dw g2 where dw: "random_randint 80 150 g1 = Inr (dw, g2)" "80 \<le> dw" "dw \<le> 150"
    using randint_ok[of 80 150 g1] by auto
  obtain k g3 where k: "random_randint 30 60 g2 = Inr (k, g3)" "30 \<le> k" "k \<le> 60"
    using randint_ok[of 30 60 g2] by auto
  obtain steep :: int and g4 where st: "random_choice [- 1, 1] g3 = Inr (steep, g4)"
    using choice_ok[of "- 1 :: int" 1 g3] by blast
  define dh where "dh = real_of_int k * complexity"
  have dh0: "0 \<le> dh" using k(2) assms(2) by (simp add: dh_def)
  let ?xs = "py_range (max 0 (ctr - dw)) (min ?w (ctr + dw))"
  define target where "target = py_int (real_of_int (em ! nat ctr) - dh)"
  define I where "I = (\<lambda>(p :: int list) (e :: int list). length e = length em \<and>
            (\<forall>i < length em. e ! i \<le> em ! i) \<and> (ctr \<in> set p \<longrightarrow> e ! nat ctr \<le> target))"
  have "\<exists>em'. efold (dune_column ctr dw dh steep) ?xs em = Inr em' \<and> I ([] @ ?xs) em'"
  proof (rule efold_rule[where I = I])
    show "I [] em" by (simp add: I_def)
  next
    fix p x e
    assume inv: "I p e" and x: "x \<in> set ?xs"
    then have xr: "0 \<le> x" "x < int (length e)" by (auto simp: I_def)
    from dune_column_ok[OF xr dh0, of dw ctr steep] dw(2)
    obtain e' where e': "dune_column ctr dw dh steep x e = Inr e'" "length e' = length e"
      "\<forall>i < length e. e' ! i \<le> e ! i"
      "x = ctr \<longrightarrow> e' ! nat ctr = py_int (real_of_int (e ! nat ctr) - dh)" by auto
    have len: "length e = length em" and below: "\<forall>i < length em. e ! i \<le> em ! i"
      using inv by (simp_all add: I_def)
    have c_in: "nat ctr < length em" using ctr(2,3) by linarith
    have 1: "\<forall>i < length em. e' ! i \<le> em ! i"
      using e'(3) below len by (metis order_trans)
    have 2: "ctr \<in> set (p @ [x]) \<longrightarrow> e' ! nat ctr \<le> target"
    proof
      assume "ctr \<in> set (p @ [x])"
      then consider "x = ctr" | "ctr \<in> set p" by auto
      then show "e' ! nat ctr \<le> target"
      proof cases
        case 1
        have "real_of_int (e ! nat ctr) - dh \<le> real_of_int (em ! nat ctr) - dh"
          using below c_in by simp
        then have "py_int (real_of_int (e ! nat ctr) - dh) \<le> target"
          unfolding target_def by (rule py_int_mono)
        then show ?thesis using e'(4) 1 by simp
      next
        case 2
        then have "e ! nat ctr \<le> target" using inv by (simp add: I_def)
        moreover have "e' ! nat ctr \<le> e ! nat ctr" using e'(3) c_in len by simp
        ultimately show ?thesis by linarith
      qed
    qed
    show "\<exists>e'. dune_column ctr dw dh steep x e = Inr e' \<and> I (p @ [x]) e'"
      using e'(1,2) len 1 2 by (auto simp: I_def)
  qed
  then obtain em' where em': "efold (dune_column ctr dw dh steep) ?xs em = Inr em'" "I ?xs em'"
    by auto
  have "ctr \<in> set ?xs" using ctr(2,3) dw(2) by auto
  then have res: "length em' = length em" "\<forall>i < length em. em' ! i \<le> em ! i"
    "em' ! nat ctr \<le> target" using em'(2) by (simp_all add: I_def)
  have "one_dune complexity (em, g) = Inr (em', g4)"
    using ctr(1) dw(1) k(1) st em'(1) by (simp add: one_dune_def dh_def)
  then show ?thesis using res ctr(2,3) k(2,3) unfolding target_def dh_def by blast
qed

lemma add_sand_dunes_ok:
  assumes "200 \<le> length hm" "0 \<le> complexity"
  shows "\<exists>em g'. add_sand_dunes hm complexity g = Inr (em, g') \<and> length em = length hm \<and>
           (\<forall>i < length hm. em ! i \<le> hm ! i) \<and>
           (length hm = 200 \<and> complexity = 2 \<longrightarrow> em ! 100 \<le> hm ! 100 - 420)"
proof -
  let ?n = "py_int (3 + complexity * 2)"
  define J where "J = (\<lambda>(p :: int list) (st :: int list \<times> rng).
      length (fst st) = length hm \<and> (\<forall>i < length hm. fst st ! i \<le> hm ! i) \<and>
      (length hm = 200 \<and> complexity = 2 \<longrightarrow> fst st ! 100 \<le> hm ! 100 - 60 * int (length p)))"
  have "\<exists>st. efold (\<lambda>_. one_dune complexity) (py_range 0 ?n) (hm, g) = Inr st \<and>
             J ([] @ py_range 0 ?n) st"
  proof (rule efold_rule[where I = J])
    show "J [] (hm, g)" by (simp add: J_def)
  next
    fix p :: "int list" and x :: int and st :: "int list \<times> rng"
    assume inv: "J p st"
    obtain e g1 where st: "st = (e, g1)" by (cases st)
    have len: "length e = length hm" and below: "\<forall>i < length hm. e ! i \<le> hm ! i"
      and deep: "length hm = 200 \<and> complexity = 2 \<longrightarrow> e ! 100 \<le> hm ! 100 - 60 * int (length p)"
      using inv st by (simp_all add: J_def)
    have "200 \<le> length e" using len assms(1) by simp
    from one_dune_ok[OF this assms(2), of g1]
    obtain e' g2 ctr k where d: "one_dune complexity (e, g1) = Inr (e', g2)" "length e' = length e"
      "\<forall>i < length e. e' ! i \<le> e ! i" "100 \<le> ctr" "ctr \<le> int (length e) - 100"
      "30 \<le> k" "k \<le> 60"
      "e' ! nat ctr \<le> py_int (real_of_int (e ! nat ctr) - real_of_int k * complexity)" by blast
    have 1: "\<forall>i < length hm. e' ! i \<le> hm ! i" using d(3) below len by (metis order_trans)
    have 2: "length hm = 200 \<and> complexity = 2 \<longrightarrow>
             e' ! 100 \<le> hm ! 100 - 60 * int (length (p @ [x]))"
    proof
      assume h: "length hm = 200 \<and> complexity = 2"
      then have c: "ctr = 100" using d(4,5) len by simp
      have "real_of_int (e ! 100) - real_of_int k * 2 = real_of_int (e ! 100 - k * 2)" by simp
      then have "py_int (real_of_int (e ! 100) - real_of_int k * 2) = e ! 100 - k * 2"
        by (simp only: py_int_of_int)
      then have "e' ! 100 \<le> e ! 100 - k * 2" using d(8) c h by simp
      then show "e' ! 100 \<le> hm ! 100 - 60 * int (length (p @ [x]))"
        using deep h d(6) by simp
    qed
    have "J (p @ [x]) (e', g2)" using d(2) len 1 2 by (simp add: J_def)
    then show "\<exists>st'. one_dune complexity st = Inr st' \<and> J (p @ [x]) st'" using d(1) st by blast
  qed
  then obtain st where st: "efold (\<lambda>_. one_dune complexity) (py_range 0 ?n) (hm, g) = Inr st"
    "J (py_range 0 ?n) st" by auto
  obtain em g' where eg: "st = (em, g')" by (cases st)
  have n7: "length hm = 200 \<and> complexity = 2 \<longrightarrow> int (length (py_range 0 ?n)) = 7"
    by (simp add: py_range_def py_int_def)
  have "length hm = 200 \<and> complexity = 2 \<longrightarrow> em ! 100 \<le> hm ! 100 - 420"
  proof
    assume h: "length hm = 200 \<and> complexity = 2"
    then have "em ! 100 \<le> hm ! 100 - 60 * int (length (py_range 0 ?n))"
      using st(2) eg by (simp add: J_def)
    then show "em ! 100 \<le> hm ! 100 - 420" using n7 h by simp
  qed
  then show ?thesis using st eg by (simp add: add_sand_dunes_def J_def)
qed

lemma smooth_pass_ok:
  "\<exists>out. smooth_pass em = Inr out \<and> length out = length em \<and>
     (\<forall>j < length em. out ! j = em ! j \<or>
        (1 \<le> j \<and> j + 1 < length em \<and>
         out ! j = py_int (real_of_int (em ! (j - 1)) * (25 / 100) + real_of_int (em ! j) * (5 / 10) +
                           real_of_int (em ! (j + 1)) * (25 / 100)))) \<and>
     (\<forall>j. 1 \<le> j \<and> j + 1 < length em \<longrightarrow>
         out ! j = py_int (real_of_int (em ! (j - 1)) * (25 / 100) + real_of_int (em ! j) * (5 / 10) +
                           real_of_int (em ! (j + 1)) * (25 / 100)))"
proof -
  define F where "F = (\<lambda>j. py_int (real_of_int (em ! (j - 1)) * (25 / 100) +
      real_of_int (em ! j) * (5 / 10) + real_of_int (em ! (j + 1)) * (25 / 100)))"
  define f where "f = (\<lambda>i new_smoothed.
              ebind (py_get em (i - 1)) (\<lambda>a.
                ebind (py_get em i) (\<lambda>b.
                  ebind (py_get em (i + 1)) (\<lambda>c.
                    py_set new_smoothed i
                      (py_int (real_of_int a * (25 / 100) + real_of_int b * (5 / 10) +
                               real_of_int c * (25 / 100)))))))"
  define I where "I = (\<lambda>(p :: int list) (new :: int list). length new = length em \<and>
      (\<forall>j < length em. new ! j = em ! j \<or> (1 \<le> j \<and> j + 1 < length em \<and> new ! j = F j)) \<and>
      (\<forall>i \<in> set p. new ! nat i = F (nat i)))"
  let ?xs = "py_range 1 (int (length em) - 1)"
  have "\<exists>out. efold f ?xs em = Inr out \<and> I ([] @ ?xs) out"
  proof (rule efold_rule[where I = I])
    show "I [] em" by (simp add: I_def)
  next
    fix p i new
    assume inv: "I p new" and "i \<in> set ?xs"
    then have i: "1 \<le> i" "i < int (length em) - 1" by auto
    have len: "length new = length em" using inv by (simp add: I_def)
    have ni: "nat (i - 1) = nat i - 1" "nat (i + 1) = nat i + 1" using i by linarith+
    have "f i new = Inr (new[nat i := F (nat i)])"
      using i len ni by (simp add: f_def F_def py_get_in py_set_in)
    moreover have "I (p @ [i]) (new[nat i := F (nat i)])"
      unfolding I_def
    proof (intro conjI allI impI ballI)
      show "length (new[nat i := F (nat i)]) = length em" using len by simp
    next
      fix j assume j: "j < length em"
      show "new[nat i := F (nat i)] ! j = em ! j \<or>
            (1 \<le> j \<and> j + 1 < length em \<and> new[nat i := F (nat i)] ! j = F j)"
      proof (cases "j = nat i")
        case True
        have "1 \<le> nat i" "nat i + 1 < length em" using i by linarith+
        then show ?thesis using True len j by simp
      next
        case False
        then show ?thesis using inv j by (simp add: I_def)
      qed
    next
      fix i' assume "i' \<in> set (p @ [i])"
      then consider "i' = i" | "i' \<in> set p" "nat i' \<noteq> nat i" | "i' \<in> set p" "nat i' = nat i" by auto
      then show "new[nat i := F (nat i)] ! nat i' = F (nat i')"
      proof cases
        case 1
        then show ?thesis using i len by simp
      next
        case 2
        then show ?thesis using inv by (simp add: I_def)
      next
        case 3
        then show ?thesis using i len by simp
      qed
    qed
    ultimately show "\<exists>new'. f i new = Inr new' \<and> I (p @ [i]) new'" by blast
  qed
  then obtain out where out: "efold f ?xs em = Inr out" "I ?xs out" by auto
  have run: "smooth_pass em = Inr out" using out(1) by (simp add: smooth_pass_def f_def)
  have mid: "\<forall>j. 1 \<le> j \<and> j + 1 < length em \<longrightarrow> out ! j = F j"
  proof (intro allI impI)
    fix j assume j: "1 \<le> j \<and> j + 1 < length em"
    then have "int j \<in> set ?xs" by auto
    then have "out ! nat (int j) = F (nat (int j))" using out(2) unfolding I_def by blast
    then show "out ! j = F j" by simp
  qed
  show ?thesis using run out(2) mid unfolding I_def F_def by blast
qed

lemma smooth_terrain_once: "smooth_terrain em 1 = smooth_pass em"
proof -
  have "py_range 0 1 = [0]" by (simp add: py_range_def)
  then show ?thesis by (cases "smooth_pass em") (simp_all add: smooth_terrain_def)
qed

lemma smooth_value_le:
  assumes "a \<le> B" "b \<le> B" "c \<le> (B::int)"
  shows "py_int (real_of_int a * (25 / 100) + real_of_int b * (5 / 10) + real_of_int c * (25 / 100)) \<le> B"
proof (rule py_int_le)
  have "real_of_int a \<le> real_of_int B" "real_of_int b \<le> real_of_int B" "real_of_int c \<le> real_of_int B"
    using assms by simp_all
  then show "real_of_int a * (25 / 100) + real_of_int b * (5 / 10) + real_of_int c * (25 / 100)
        \<le> real_of_int B" by simp
qed

lemma generate_varied_terrain_ok:
  assumes "200 \<le> w" "0 \<le> complexity"
  shows "\<exists>out g'. generate_varied_terrain w complexity g = Inr (out, g') \<and> length out = nat w \<and>
           (\<forall>j < length out. out ! j \<le> max_height) \<and>
           (w = 200 \<and> complexity = 2 \<longrightarrow> out ! 100 \<le> 470)"
proof -
  obtain hm g1 where hm: "generate_height_map w complexity g = Inr (hm, g1)" "length hm = nat w"
    "\<forall>v \<in> set hm. min_height \<le> v \<and> v \<le> max_height"
    using generate_height_map_ok[of w complexity g] by blast
  have l200: "200 \<le> length hm" using hm(2) assms(1) by linarith
  obtain em g2 where em: "add_sand_dunes hm complexity g1 = Inr (em, g2)" "length em = length hm"
    "\<forall>i < length hm. em ! i \<le> hm ! i"
    "length hm = 200 \<and> complexity = 2 \<longrightarrow> em ! 100 \<le> hm ! 100 - 420"
    using add_sand_dunes_ok[OF l200 assms(2), of g1] by blast
  have emB: "\<forall>i < length em. em ! i \<le> max_height"
  proof (intro allI impI)
    fix i assume i: "i < length em"
    then have "hm ! i \<le> max_height" using hm(3) em(2) by (simp add: nth_mem)
    moreover have "em ! i \<le> hm ! i" using em(3) i em(2) by simp
    ultimately show "em ! i \<le> max_height" by linarith
  qed
  let ?F = "\<lambda>j. py_int (real_of_int (em ! (j - 1)) * (25 / 100) + real_of_int (em ! j) * (5 / 10) +
                           real_of_int (em ! (j + 1)) * (25 / 100))"
  obtain out where out: "smooth_pass em = Inr out" "length out = length em"
    "\<forall>j < length em. out ! j = em ! j \<or> (1 \<le> j \<and> j + 1 < length em \<and> out ! j = ?F j)"
    "\<forall>j. 1 \<le> j \<and> j + 1 < length em \<longrightarrow> out ! j = ?F j"
    using smooth_pass_ok[of em] by blast
  have run: "generate_varied_terrain w complexity g = Inr (out, g2)"
    using hm(1) em(1) out(1) by (simp add: generate_varied_terrain_def smooth_terrain_once)
  have FB: "?F j \<le> max_height" if "1 \<le> j" "j + 1 < length em" for j
    by (rule smooth_value_le) (use emB that in simp_all)
  have outB: "\<forall>j < length out. out ! j \<le> max_height"
  proof (intro allI impI)
    fix j assume j: "j < length out"
    then have "out ! j = em ! j \<or> (1 \<le> j \<and> j + 1 < length em \<and> out ! j = ?F j)"
      using out(2,3) by simp
    then show "out ! j \<le> max_height" using emB j out(2) FB[of j] by auto
  qed
  have deep: "w = 200 \<and> complexity = 2 \<longrightarrow> out ! 100 \<le> 470"
  proof
    assume h: "w = 200 \<and> complexity = 2"
    then have len: "length em = 200" using hm(2) em(2) by simp
    have "hm ! 100 \<le> max_height" using hm(3) len em(2) by (simp add: nth_mem)
    then have e100: "em ! 100 \<le> 260" using em(4) h hm(2) by (simp add: max_height_def SCREEN_HEIGHT_def)
    have e99: "em ! 99 \<le> 680" and e101: "em ! 101 \<le> 680"
      using emB len by (simp_all add: max_height_def SCREEN_HEIGHT_def)
    have "out ! 100 = ?F 100" using out(4) len by simp
    moreover have "?F 100 \<le> 470"
    proof (rule py_int_le)
      have "real_of_int (em ! 99) \<le> 680" "real_of_int (em ! 100) \<le> 260" "real_of_int (em ! 101) \<le> 680"
        using e99 e100 e101 by simp_all
      then show "real_of_int (em ! (100 - 1)) * (25 / 100) + real_of_int (em ! 100) * (5 / 10) +
           real_of_int (em ! (100 + 1)) * (25 / 100) \<le> real_of_int 470" by simp
    qed
    ultimately show "out ! 100 \<le> 470" by simp
  qed
  show ?thesis using run out(2) em(2) hm(2) outB deep by simp
qed

text \<open>
  C9, as stated, fails for the complete generator \<^verbatim>\<open>generate_varied_terrain\<close>, which subtracts the
  sand dunes after the clamp.  With width \<open>200\<close> and complexity \<open>2.0\<close> each of the seven dunes
  is centred on column \<open>100\<close> and lowers it by at least \<open>60\<close>, so the smoothed output at column
  \<open>100\<close> lies below the band's minimum \<open>500\<close>.  With width \<open>100\<close> the call raises \<^verbatim>\<open>ValueError\<close>
  in \<^verbatim>\<open>randint(100, 0)\<close> and there is no output at all.
\<close>

theorem generate_varied_terrain_counterexample:
  "ebind (generate_varied_terrain 200 2 (\<lambda>_. 0)) (\<lambda>(out, g'). Inr (out ! 100 < min_height)) = Inr True \<and>
   generate_varied_terrain 100 1 (\<lambda>_. 0) = Inl ValueError"
proof -
  obtain out g' where o: "generate_varied_terrain 200 2 (\<lambda>_. 0) = Inr (out, g')" "out ! 100 \<le> 470"
    using generate_varied_terrain_ok[of 200 2 "\<lambda>_. 0"] by auto
  have "generate_varied_terrain 100 1 (\<lambda>_. 0) = Inl ValueError"
    by (rule generate_varied_terrain_narrow) (simp_all add: py_int_def)
  then show ?thesis using o by (simp add: min_height_def SCREEN_HEIGHT_def)
qed

text \<open>
  C9, as amended.  For every width and every complexity \<^verbatim>\<open>generate_height_map\<close> returns an
  integer sequence whose length is the width (empty for a width below one) and whose values
  all lie in the clamped band, from \<open>SCREEN_HEIGHT - 220 = 500\<close> to \<open>SCREEN_HEIGHT - 40 = 680\<close>.
  The complete generator \<^verbatim>\<open>generate_varied_terrain\<close> returns, for a width of at least \<open>200\<close> and
  a complexity that is not negative, an integer sequence of that length whose values do not
  exceed the band's maximum.
\<close>

theorem terrain_generator_output:
  "(\<exists>hm g'. generate_height_map w complexity g = Inr (hm, g') \<and> length hm = nat w \<and>
             (\<forall>v \<in> set hm. min_height \<le> v \<and> v \<le> max_height)) \<and>
   min_height = 500 \<and> max_height = 680 \<and>
   (200 \<le> w \<and> 0 \<le> complexity \<longrightarrow>
      (\<exists>out g'. generate_varied_terrain w complexity g = Inr (out, g') \<and> length out = nat w \<and>
                 (\<forall>v \<in> set out. v \<le> max_height)))"
proof -
  have 1: "\<exists>hm g'. generate_height_map w complexity g = Inr (hm, g') \<and> length hm = nat w \<and>
             (\<forall>v \<in> set hm. min_height \<le> v \<and> v \<le> max_height)"
    by (rule generate_height_map_ok)
  have 2: "\<exists>out g'. generate_varied_terrain w complexity g = Inr (out, g') \<and> length out = nat w \<and>
                 (\<forall>v \<in> set out. v \<le> max_height)" if "200 \<le> w" "0 \<le> complexity"
  proof -
    from generate_varied_terrain_ok[OF that, of g]
    obtain out g' where o: "generate_varied_terrain w complexity g = Inr (out, g')"
      "length out = nat w" "\<forall>j < length out. out ! j \<le> max_height" by blast
    have "\<forall>v \<in> set out. v \<le> max_height" using o(3) by (auto simp: in_set_conv_nth)
    then show ?thesis using o(1,2) by blast
  qed
  show ?thesis using 1 2 by (simp add: min_height_def max_height_def SCREEN_HEIGHT_def)
qed

theorem terrain_generator_output_witness:
  "(200::int) \<le> 400 \<and> (0::real) \<le> 1 \<and>
   (\<exists>hm g'. generate_height_map 400 1 (\<lambda>_. 0) = Inr (hm, g') \<and> length hm = nat 400 \<and>
             (\<forall>v \<in> set hm. min_height \<le> v \<and> v \<le> max_height)) \<and>
   (\<exists>out g'. generate_varied_terrain 400 1 (\<lambda>_. 0) = Inr (out, g') \<and> length out = nat 400 \<and>
              (\<forall>v \<in> set out. v \<le> max_height))"
  using terrain_generator_output[of 400 1 "\<lambda>_. 0"] by simp

end
